theory Spec2Isabelle
  imports Complex_Main
begin

section \<open>Python strings\<close>

text \<open>
  A Python \<^verbatim>\<open>str\<close> is a sequence of Unicode code points. A code point is a natural
  number here, so that the white space and the line boundaries beyond Latin-1
  (U+2028, U+3000, ...) are part of the model.
\<close>

type_synonym pystr = "nat list"

definition ascii :: "string \<Rightarrow> pystr" where
  "ascii s = map of_char s"

text \<open>
  \<^verbatim>\<open>str.isspace\<close> on one code point, which is the set \<^verbatim>\<open>str.strip()\<close> removes:
  U+0009..U+000D, U+001C..U+0020, U+0085, U+00A0, U+1680, U+2000..U+200A, U+2028, U+2029,
  U+202F, U+205F, U+3000.
\<close>

definition is_space :: "nat \<Rightarrow> bool" where
  "is_space c =
     ((9 \<le> c \<and> c \<le> 13) \<or> (28 \<le> c \<and> c \<le> 32) \<or> c = 133 \<or> c = 160 \<or> c = 5760 \<or>
      (8192 \<le> c \<and> c \<le> 8202) \<or> c = 8232 \<or> c = 8233 \<or> c = 8239 \<or> c = 8287 \<or> c = 12288)"

text \<open>
  The line boundaries of \<^verbatim>\<open>str.splitlines\<close>: LF, VT, FF, CR, FS, GS, RS, NEL, LS, PS
  (CR LF counts as one boundary).
\<close>

definition is_linebreak :: "nat \<Rightarrow> bool" where
  "is_linebreak c =
     (c = 10 \<or> c = 11 \<or> c = 12 \<or> c = 13 \<or> c = 28 \<or> c = 29 \<or> c = 30 \<or> c = 133 \<or>
      c = 8232 \<or> c = 8233)"

text \<open>\<^verbatim>\<open>s.strip()\<close>: white space removed at both ends.\<close>

definition strip :: "pystr \<Rightarrow> pystr" where
  "strip s = rev (dropWhile is_space (rev (dropWhile is_space s)))"

text \<open>
  \<^verbatim>\<open>s.splitlines()\<close> (without \<^verbatim>\<open>keepends\<close>): while text is left, the run up to the next
  line boundary is one line and the boundary is dropped. The empty string has no line, and a
  boundary at the very end opens no further line.
\<close>

function splitlines :: "pystr \<Rightarrow> pystr list" where
  "splitlines [] = []"
| "splitlines (c # cs) =
     (let line = takeWhile (\<lambda>x. \<not> is_linebreak x) (c # cs);
          rest = dropWhile (\<lambda>x. \<not> is_linebreak x) (c # cs)
      in case rest of
           [] \<Rightarrow> [line]
         | b # bs \<Rightarrow>
             (if b = 13 \<and> bs \<noteq> [] \<and> hd bs = 10 then line # splitlines (tl bs)
              else line # splitlines bs))"
  by pat_completeness auto
termination
proof (relation "measure length")
  show "wf (measure length)" by simp
next
  fix c :: nat and cs line rest b bs
  assume "rest = dropWhile (\<lambda>x. \<not> is_linebreak x) (c # cs)" and "rest = b # bs"
  then have "length (b # bs) \<le> length (c # cs)"
    by (metis length_dropWhile_le)
  then show "(tl bs, c # cs) \<in> measure length"
    by (cases bs) auto
next
  fix c :: nat and cs line rest b bs
  assume "rest = dropWhile (\<lambda>x. \<not> is_linebreak x) (c # cs)" and "rest = b # bs"
  then have "length (b # bs) \<le> length (c # cs)"
    by (metis length_dropWhile_le)
  then show "(bs, c # cs) \<in> measure length"
    by auto
qed

text \<open>\<^verbatim>\<open>sep.join(xs)\<close>.\<close>

fun join :: "pystr \<Rightarrow> pystr list \<Rightarrow> pystr" where
  "join sep [] = []"
| "join sep [x] = x"
| "join sep (x # y # ys) = x @ sep @ join sep (y # ys)"

section \<open>The output parser\<close>

text \<open>
  \<^verbatim>\<open>return [line.strip() for line in output.splitlines() if line.strip()]\<close>;
  a string is true when it is not empty.
\<close>

definition parse_cmd_output :: "pystr \<Rightarrow> pystr list" where
  "parse_cmd_output output = [strip line. line \<leftarrow> splitlines output, strip line \<noteq> []]"

section \<open>Exceptions, effects and the outside world\<close>

text \<open>
  An exception is its class and its message (\<^verbatim>\<open>str(e)\<close>). \<open>LibraryError\<close> stands for
  any other class derived from \<^verbatim>\<open>Exception\<close> that the SSH library or the socket layer
  raises (SSHException, EOFError, socket.error, ...). \<open>KeyboardInterrupt\<close> and \<open>SystemExit\<close>
  derive from \<^verbatim>\<open>BaseException\<close> only: \<^verbatim>\<open>except Exception\<close> does not catch them.
\<close>

datatype exn_class =
    ConnectionError
  | RuntimeError
  | ValueError
  | OverflowError
  | AttributeError
  | LibraryError string
  | KeyboardInterrupt
  | SystemExit

datatype exn = Exn exn_class pystr

text \<open>\<^verbatim>\<open>isinstance(e, Exception)\<close>.\<close>

fun is_Exception :: "exn \<Rightarrow> bool" where
  "is_Exception (Exn KeyboardInterrupt m) = False"
| "is_Exception (Exn SystemExit m) = False"
| "is_Exception (Exn k m) = True"

fun str_exn :: "exn \<Rightarrow> pystr" where
  "str_exn (Exn k m) = m"

text \<open>Objects of the SSH library (a client, a channel) are known by a handle.\<close>

type_synonym handle = nat

text \<open>
  The argument of \<^verbatim>\<open>time.sleep\<close>: an integer or a float, that is a rational number, an
  infinity or NaN. \<^verbatim>\<open>time.sleep\<close> (CPython 3.11) converts it to a signed 64-bit count of
  nanoseconds and refuses it with OverflowError when it does not fit, with ValueError when
  it is NaN or negative. The rounding of a float to nanoseconds is left out: the bound is
  taken on the exact value.
\<close>

datatype seconds = Finite rat | PosInf | NegInf | NaN

fun sleep_error :: "seconds \<Rightarrow> exn option" where
  "sleep_error NaN = Some (Exn ValueError (ascii ''Invalid value NaN (not a number)''))"
| "sleep_error PosInf =
     Some (Exn OverflowError (ascii ''timestamp too large to convert to C _PyTime_t''))"
| "sleep_error NegInf =
     Some (Exn OverflowError (ascii ''timestamp too large to convert to C _PyTime_t''))"
| "sleep_error (Finite q) =
     (if q * 1000000000 > 9223372036854775807 \<or> q * 1000000000 < - 9223372036854775808
      then Some (Exn OverflowError (ascii ''timestamp too large to convert to C _PyTime_t''))
      else if q < 0 then Some (Exn ValueError (ascii ''sleep length must be non-negative''))
      else None)"

text \<open>
  One constructor for each \<^verbatim>\<open>print\<close> of the source, with the values its f-string
  interpolates:
  \<^verbatim>\<open>[*] Attempting to reconnect to {self.host}...\<close>,
  \<^verbatim>\<open>[+] Reconnected on attempt {attempt}.\<close>,
  \<^verbatim>\<open>[!] Attempt {attempt} failed: {e}\<close>,
  \<^verbatim>\<open>[!] Command failed: {e}\<close>.
\<close>

datatype message =
    Attempting pystr
  | Reconnected int
  | Attempt_failed int exn
  | Command_failed exn

text \<open>
  What the program does to the outside, in order: what it prints, each sleep it starts, and
  each call into the library (logged when it is made, whether it then succeeds or raises).
\<close>

datatype event =
    Print message
  | Sleep seconds
  | SSHClient_new
  | Set_policy handle
  | Client_connect handle pystr int pystr pystr
  | Invoke_shell handle
  | Recv_ready handle
  | Recv handle int
  | Send handle pystr
  | Channel_close handle
  | Client_close handle

text \<open>
  The outside world decides how library calls end. \<open>failures\<close> is read by each library call,
  in order: \<open>Some e\<close> makes the call raise \<open>e\<close> (an error of the library, or a
  KeyboardInterrupt that arrives while the call waits), \<open>None\<close> lets it succeed.
  \<open>interrupts\<close> is read by each sleep that starts, in order: \<open>True\<close> is a KeyboardInterrupt
  that ends the sleep. So the signals that are not errors are modelled where the program
  waits: in library calls and in sleeps. \<open>ready\<close> is what the successive
  \<^verbatim>\<open>recv_ready()\<close> calls answer and \<open>chunks\<close> the decoded text of the successive
  \<^verbatim>\<open>recv(...)\<close> calls. Where a list has run out, calls succeed, sleeps run to their end,
  the channel has nothing to read and the text is empty; so every world is one where the
  channel falls silent at some point. \<open>trace\<close> is the log of events so far.
\<close>

record world =
  failures :: "exn option list"
  interrupts :: "bool list"
  ready :: "bool list"
  chunks :: "pystr list"
  next_handle :: handle
  trace :: "event list"

section \<open>SSHConnection\<close>

text \<open>The fields \<^verbatim>\<open>_ssh_client\<close> and \<^verbatim>\<open>_shell\<close> are \<open>ssh_client\<close> and \<open>shell\<close>.\<close>

record SSHConnection =
  host :: pystr
  username :: pystr
  password :: pystr
  port :: int
  buffer_size :: int
  ssh_client :: "handle option"
  shell :: "handle option"

definition init :: "pystr \<Rightarrow> pystr \<Rightarrow> pystr \<Rightarrow> int \<Rightarrow> int \<Rightarrow> SSHConnection" where
  "init h u p prt bs =
     \<lparr>host = h, username = u, password = p, port = prt, buffer_size = bs,
      ssh_client = None, shell = None\<rparr>"

text \<open>
  A method is a function from the object and the world to its outcome (\<open>Inl\<close> an exception
  raised, \<open>Inr\<close> the value returned) and the object and the world it leaves behind; an
  exception does not undo the assignments made before it.
\<close>

type_synonym 'a prog = "SSHConnection \<times> world \<Rightarrow> (exn + 'a) \<times> SSHConnection \<times> world"

definition ret :: "'a \<Rightarrow> 'a prog" where
  "ret a s = (Inr a, s)"

definition raise_exn :: "exn \<Rightarrow> 'a prog" where
  "raise_exn e s = (Inl e, s)"

definition and_then :: "'a prog \<Rightarrow> ('a \<Rightarrow> 'b prog) \<Rightarrow> 'b prog" where
  "and_then m f s = (case m s of (Inl e, s') \<Rightarrow> (Inl e, s') | (Inr a, s') \<Rightarrow> f a s')"

text \<open>
  \<^verbatim>\<open>try: m except Exception as e: h\<close>: the handler runs for an instance of
  \<^verbatim>\<open>Exception\<close>; any other exception goes on to the caller.
\<close>

definition try_except :: "'a prog \<Rightarrow> (exn \<Rightarrow> 'a prog) \<Rightarrow> 'a prog" where
  "try_except m h s =
     (case m s of
        (Inl e, s') \<Rightarrow> (if is_Exception e then h e s' else (Inl e, s'))
      | (Inr a, s') \<Rightarrow> (Inr a, s'))"

definition self :: "SSHConnection prog" where
  "self s = (Inr (fst s), s)"

definition set_ssh_client :: "handle option \<Rightarrow> unit prog" where
  "set_ssh_client v s = (Inr (), (fst s)\<lparr>ssh_client := v\<rparr>, snd s)"

definition set_shell :: "handle option \<Rightarrow> unit prog" where
  "set_shell v s = (Inr (), (fst s)\<lparr>shell := v\<rparr>, snd s)"

definition log :: "event \<Rightarrow> unit prog" where
  "log ev s = (Inr (), fst s, (snd s)\<lparr>trace := trace (snd s) @ [ev]\<rparr>)"

text \<open>A call into the library that can raise.\<close>

definition lib_call :: "event \<Rightarrow> unit prog" where
  "lib_call ev s =
     (case failures (snd s) of
        [] \<Rightarrow> log ev s
      | f # fs \<Rightarrow>
          (case f of None \<Rightarrow> Inr () | Some e \<Rightarrow> Inl e,
           fst s, (snd s)\<lparr>failures := fs, trace := trace (snd s) @ [ev]\<rparr>))"

definition fresh_handle :: "handle prog" where
  "fresh_handle s = (Inr (next_handle (snd s)), fst s, (snd s)\<lparr>next_handle := Suc (next_handle (snd s))\<rparr>)"

definition py_print :: "message \<Rightarrow> unit prog" where
  "py_print m = log (Print m)"

text \<open>
  \<^verbatim>\<open>time.sleep(secs)\<close>: a length it refuses raises at once; otherwise the sleep starts,
  and a KeyboardInterrupt can end it.
\<close>

definition time_sleep :: "seconds \<Rightarrow> unit prog" where
  "time_sleep secs s =
     (case sleep_error secs of
        Some e \<Rightarrow> raise_exn e s
      | None \<Rightarrow>
          (case interrupts (snd s) of
             [] \<Rightarrow> log (Sleep secs) s
           | i # js \<Rightarrow>
               (if i then Inl (Exn KeyboardInterrupt []) else Inr (),
                fst s, (snd s)\<lparr>interrupts := js, trace := trace (snd s) @ [Sleep secs]\<rparr>)))"

text \<open>
  Reading \<^verbatim>\<open>self._ssh_client\<close> or \<^verbatim>\<open>self._shell\<close> to call a method on it: on
  \<^verbatim>\<open>None\<close> the attribute lookup raises AttributeError.
\<close>

definition the_client :: "handle prog" where
  "the_client s =
     (case ssh_client (fst s) of
        None \<Rightarrow> raise_exn (Exn AttributeError (ascii ''NoneType object has no attribute'')) s
      | Some h \<Rightarrow> ret h s)"

definition the_shell :: "handle prog" where
  "the_shell s =
     (case shell (fst s) of
        None \<Rightarrow> raise_exn (Exn AttributeError (ascii ''NoneType object has no attribute'')) s
      | Some h \<Rightarrow> ret h s)"

text \<open>The library calls of the source.\<close>

definition paramiko_SSHClient :: "handle prog" where
  "paramiko_SSHClient = and_then (lib_call SSHClient_new) (\<lambda>_. fresh_handle)"

definition set_missing_host_key_policy :: "handle \<Rightarrow> unit prog" where
  "set_missing_host_key_policy h = lib_call (Set_policy h)"

definition client_connect :: "handle \<Rightarrow> pystr \<Rightarrow> int \<Rightarrow> pystr \<Rightarrow> pystr \<Rightarrow> unit prog" where
  "client_connect h hostname prt user pw = lib_call (Client_connect h hostname prt user pw)"

definition invoke_shell :: "handle \<Rightarrow> handle prog" where
  "invoke_shell h = and_then (lib_call (Invoke_shell h)) (\<lambda>_. fresh_handle)"

definition channel_send :: "handle \<Rightarrow> pystr \<Rightarrow> unit prog" where
  "channel_send h text = lib_call (Send h text)"

definition recv_ready :: "handle \<Rightarrow> bool prog" where
  "recv_ready h =
     and_then (lib_call (Recv_ready h)) (\<lambda>_ s.
       case ready (snd s) of
         [] \<Rightarrow> ret False s
       | b # bs \<Rightarrow> ret b (fst s, (snd s)\<lparr>ready := bs\<rparr>))"

text \<open>\<^verbatim>\<open>recv(nbytes).decode(errors='ignore')\<close>: the text of the next chunk.\<close>

definition recv_decoded :: "handle \<Rightarrow> int \<Rightarrow> pystr prog" where
  "recv_decoded h nbytes =
     and_then (lib_call (Recv h nbytes)) (\<lambda>_ s.
       case chunks (snd s) of
         [] \<Rightarrow> ret [] s
       | d # ds \<Rightarrow> ret d (fst s, (snd s)\<lparr>chunks := ds\<rparr>))"

text \<open>
  \<^verbatim>\<open>close()\<close> of a channel or a client: a library call as the others, and it can raise
  (a channel closed over a dead transport raises EOFError).
\<close>

definition channel_close :: "handle \<Rightarrow> unit prog" where
  "channel_close h = lib_call (Channel_close h)"

definition client_close :: "handle \<Rightarrow> unit prog" where
  "client_close h = lib_call (Client_close h)"

subsection \<open>The methods\<close>

definition is_connected :: "SSHConnection \<Rightarrow> bool" where
  "is_connected c = (ssh_client c \<noteq> None \<and> shell c \<noteq> None)"

definition flush_buffer :: "unit prog" where
  "flush_buffer s =
     (case shell (fst s) of
        None \<Rightarrow> ret () s
      | Some h \<Rightarrow>
          and_then (recv_ready h) (\<lambda>r.
            if r then and_then self (\<lambda>c. and_then (recv_decoded h (buffer_size c)) (\<lambda>_. ret ()))
            else ret ()) s)"

text \<open>The body of the \<^verbatim>\<open>try\<close> of \<^verbatim>\<open>connect\<close>.\<close>

definition connect_body :: "bool \<Rightarrow> unit prog" where
  "connect_body disable_pagination =
     and_then paramiko_SSHClient (\<lambda>client.
     and_then (set_ssh_client (Some client)) (\<lambda>_.
     and_then the_client (\<lambda>h.
     and_then (set_missing_host_key_policy h) (\<lambda>_.
     and_then the_client (\<lambda>h.
     and_then self (\<lambda>c.
     and_then (client_connect h (host c) (port c) (username c) (password c)) (\<lambda>_.
     and_then the_client (\<lambda>h.
     and_then (invoke_shell h) (\<lambda>chan.
     and_then (set_shell (Some chan)) (\<lambda>_.
     and_then (time_sleep (Finite 1)) (\<lambda>_.
     and_then flush_buffer (\<lambda>_.
     if disable_pagination
     then and_then the_shell (\<lambda>h.
          and_then (channel_send h (ascii ''terminal length 0'' @ [10])) (\<lambda>_.
          time_sleep (Finite 1)))
     else ret ()))))))))))))"

text \<open>
  \<^verbatim>\<open>except Exception as e: raise ConnectionError(f"[!] SSH connection failed: {e}")\<close>
\<close>

definition connect :: "bool \<Rightarrow> unit prog" where
  "connect disable_pagination =
     try_except (connect_body disable_pagination)
       (\<lambda>e. raise_exn (Exn ConnectionError (ascii ''[!] SSH connection failed: '' @ str_exn e)))"

text \<open>
  \<^verbatim>\<open>disconnect\<close> has no handler: an exception of a \<^verbatim>\<open>close()\<close> leaves the method
  before the handle is set to \<^verbatim>\<open>None\<close>.
\<close>

definition disconnect :: "unit prog" where
  "disconnect =
     and_then self (\<lambda>c.
     and_then (case shell c of
                 None \<Rightarrow> ret ()
               | Some h \<Rightarrow> and_then (channel_close h) (\<lambda>_. set_shell None)) (\<lambda>_.
     and_then self (\<lambda>c.
     case ssh_client c of
       None \<Rightarrow> ret ()
     | Some h \<Rightarrow> and_then (client_close h) (\<lambda>_. set_ssh_client None))))"

text \<open>
  The loop of \<^verbatim>\<open>reconnect\<close> over \<^verbatim>\<open>range(1, retry_count + 1)\<close>: the body of the
  \<^verbatim>\<open>try\<close> returns from the method; the handler of \<^verbatim>\<open>except Exception\<close> prints,
  sleeps and goes on to the next attempt. An exception raised inside the handler, and one
  that is not an instance of \<^verbatim>\<open>Exception\<close>, leave the method.
\<close>

fun reconnect_loop :: "int list \<Rightarrow> seconds \<Rightarrow> unit prog" where
  "reconnect_loop [] retry_interval s =
     raise_exn (Exn ConnectionError (ascii ''[!] Reconnection attempts exhausted.'')) s"
| "reconnect_loop (attempt # rest) retry_interval s =
     (case and_then disconnect (\<lambda>_.
           and_then (connect False) (\<lambda>_.
           py_print (Reconnected attempt))) s of
        (Inr u, s1) \<Rightarrow> (Inr (), s1)
      | (Inl e, s1) \<Rightarrow>
          (if is_Exception e
           then (case and_then (py_print (Attempt_failed attempt e)) (\<lambda>_.
                       time_sleep retry_interval) s1 of
                   (Inl e', s2) \<Rightarrow> (Inl e', s2)
                 | (Inr u, s2) \<Rightarrow> reconnect_loop rest retry_interval s2)
           else (Inl e, s1)))"

definition reconnect :: "int \<Rightarrow> seconds \<Rightarrow> unit prog" where
  "reconnect retry_count retry_interval =
     and_then self (\<lambda>c.
     and_then (py_print (Attempting (host c))) (\<lambda>_.
     reconnect_loop [1..retry_count] retry_interval))"

text \<open>
  The \<^verbatim>\<open>while self._shell.recv_ready()\<close> loop of \<^verbatim>\<open>send_command\<close>, with the output
  read so far.
\<close>

function recv_loop :: "pystr \<Rightarrow> pystr prog" where
  "recv_loop output s =
     (case and_then the_shell recv_ready s of
        (Inl e, s1) \<Rightarrow> (Inl e, s1)
      | (Inr False, s1) \<Rightarrow> (Inr output, s1)
      | (Inr True, s1) \<Rightarrow>
          (case and_then the_shell (\<lambda>h.
                and_then self (\<lambda>c.
                recv_decoded h (buffer_size c))) s1 of
             (Inl e, s2) \<Rightarrow> (Inl e, s2)
           | (Inr data, s2) \<Rightarrow>
               (case time_sleep (Finite (1 / 10)) s2 of
                  (Inl e, s3) \<Rightarrow> (Inl e, s3)
                | (Inr u, s3) \<Rightarrow> recv_loop (output @ data) s3)))"
  by pat_completeness auto

termination recv_loop
proof (relation "measure (\<lambda>(out, s). length (ready (snd s)))")
  show "wf (measure (\<lambda>(out, s). length (ready (snd s))))" by simp
next
  fix out dat :: pystr and s s1 s2 s3 :: "SSHConnection \<times> world" and x x2 x3 and b :: bool
  assume a: "(x, s1) = and_then the_shell recv_ready s" "x = Inr b" "b = True"
    and b: "(x2, s2) = and_then the_shell (\<lambda>h. and_then self (\<lambda>c. recv_decoded h (buffer_size c))) s1"
    and c: "(x3, s3) = time_sleep (Finite (1 / 10)) s2"
  have "and_then the_shell recv_ready s = (Inr True, s1)"
    using a by simp
  then have "length (ready (snd s1)) < length (ready (snd s))"
    by (auto simp: and_then_def the_shell_def recv_ready_def lib_call_def log_def ret_def
        raise_exn_def split: option.splits list.splits sum.splits prod.splits)
  moreover have "ready (snd s2) = ready (snd s1)"
    using b [symmetric]
    by (auto simp: and_then_def the_shell_def recv_decoded_def self_def lib_call_def log_def
        ret_def raise_exn_def split: option.splits list.splits sum.splits prod.splits)
  moreover have "ready (snd s3) = ready (snd s2)"
    using c [symmetric]
    by (auto simp: time_sleep_def log_def raise_exn_def split: if_splits option.splits list.splits)
  ultimately show "((out @ dat, s3), out, s) \<in> measure (\<lambda>(out, s). length (ready (snd s)))"
    by simp
qed

definition send_command :: "pystr \<Rightarrow> seconds \<Rightarrow> pystr prog" where
  "send_command command wait_time s =
     (if \<not> is_connected (fst s)
      then raise_exn (Exn ConnectionError (ascii ''SSH connection is not active.'')) s
      else and_then the_shell (\<lambda>h.
           and_then (channel_send h (command @ [10])) (\<lambda>_.
           and_then (time_sleep wait_time) (\<lambda>_.
           and_then (recv_loop []) (\<lambda>output.
           ret (strip output))))) s)"

section \<open>ShellInterface\<close>

text \<open>\<^verbatim>\<open>str(n)\<close> of an integer: its decimal digits, with a minus sign when negative.\<close>

fun digits :: "nat \<Rightarrow> pystr" where
  "digits n = (if n < 10 then [48 + n] else digits (n div 10) @ [48 + n mod 10])"

definition str_int :: "int \<Rightarrow> pystr" where
  "str_int i = (if i < 0 then 45 # digits (nat (- i)) else digits (nat i))"

text \<open>
  \<^verbatim>\<open>self.connection\<close> refers to the one connection object, and \<^verbatim>\<open>run_cmd\<close> reads no
  other field of the interface: it is a program over that connection. The loop runs over
  \<^verbatim>\<open>range(attempts)\<close>; \<^verbatim>\<open>attempt += 1\<close> in the handler changes a local name that the
  next iteration assigns again. \<^verbatim>\<open>send_command\<close> and \<^verbatim>\<open>reconnect\<close> are called with
  their defaults (\<^verbatim>\<open>wait_time=1.0\<close>, \<^verbatim>\<open>retry_count=3\<close>, \<^verbatim>\<open>retry_interval=2\<close>).
  The handler is that of \<^verbatim>\<open>except Exception\<close>.
\<close>

fun run_cmd_loop :: "int list \<Rightarrow> pystr \<Rightarrow> int \<Rightarrow> pystr prog" where
  "run_cmd_loop [] command retry_count s =
     raise_exn (Exn RuntimeError
       (ascii ''[!] Failed to run command after '' @ [39] @ str_int retry_count @ [39] @
        ascii '' retries.'')) s"
| "run_cmd_loop (attempt # rest) command retry_count s =
     (case send_command command (Finite 1) s of
        (Inr out, s1) \<Rightarrow> (Inr out, s1)
      | (Inl e, s1) \<Rightarrow>
          (if is_Exception e
           then (case and_then (py_print (Command_failed e)) (\<lambda>_.
                       reconnect 3 (Finite 2)) s1 of
                   (Inl e', s2) \<Rightarrow> (Inl e', s2)
                 | (Inr u, s2) \<Rightarrow> run_cmd_loop rest command retry_count s2)
           else (Inl e, s1)))"

definition run_cmd :: "pystr \<Rightarrow> int \<Rightarrow> pystr prog" where
  "run_cmd command retry_count =
     (let attempts = (if retry_count = 0 then 1 else retry_count)
      in run_cmd_loop [0..attempts - 1] command retry_count)"

section \<open>Reading the trace\<close>

text \<open>The events between a state and a later one.\<close>

definition new_events :: "SSHConnection \<times> world \<Rightarrow> SSHConnection \<times> world \<Rightarrow> event list" where
  "new_events s s' = drop (length (trace (snd s))) (trace (snd s'))"

text \<open>
  Every attempt of \<^verbatim>\<open>reconnect\<close> ends in one of two prints: its number and whether it
  succeeded.
\<close>

fun attempt_outcome :: "event \<Rightarrow> (int \<times> bool) option" where
  "attempt_outcome (Print (Reconnected k)) = Some (k, True)"
| "attempt_outcome (Print (Attempt_failed k e)) = Some (k, False)"
| "attempt_outcome ev = None"

definition attempts_made :: "event list \<Rightarrow> (int \<times> bool) list" where
  "attempts_made evs = List.map_filter attempt_outcome evs"

text \<open>The calls of \<^verbatim>\<open>connect\<close>: each starts by building a client.\<close>

definition connect_calls :: "event list \<Rightarrow> nat" where
  "connect_calls evs = length (filter (\<lambda>ev. ev = SSHClient_new) evs)"

text \<open>The sleep that starts after each failed attempt of \<^verbatim>\<open>reconnect\<close>.\<close>

fun retry_sleeps :: "event list \<Rightarrow> seconds list" where
  "retry_sleeps (Print (Attempt_failed k e) # Sleep d # evs) = d # retry_sleeps evs"
| "retry_sleeps (ev # evs) = retry_sleeps evs"
| "retry_sleeps [] = []"

text \<open>The failed \<^verbatim>\<open>send_command\<close> attempts of \<^verbatim>\<open>run_cmd\<close>: each prints once.\<close>

fun is_command_failed :: "event \<Rightarrow> bool" where
  "is_command_failed (Print (Command_failed e)) = True"
| "is_command_failed ev = False"

definition failed_sends :: "event list \<Rightarrow> nat" where
  "failed_sends evs = length (filter is_command_failed evs)"

text \<open>The invariant of the data model: both handles null, or both non-null.\<close>

definition handles_agree :: "SSHConnection \<Rightarrow> bool" where
  "handles_agree c = ((ssh_client c = None) = (shell c = None))"

text \<open>
  A program only adds to the trace, and what it adds are events of a given kind.
\<close>

definition emits :: "(event \<Rightarrow> bool) \<Rightarrow> 'a prog \<Rightarrow> bool" where
  "emits Q m = (\<forall>s. \<exists>evs. trace (snd (snd (m s))) = trace (snd s) @ evs \<and> list_all Q evs)"

text \<open>
  The events of the library calls other than building a client, and the sleeps: what
  \<^verbatim>\<open>disconnect\<close>, \<^verbatim>\<open>send_command\<close> and \<^verbatim>\<open>connect\<close> after its first call do.
\<close>

definition quiet :: "event \<Rightarrow> bool" where
  "quiet ev = (case ev of Print m \<Rightarrow> False | SSHClient_new \<Rightarrow> False | _ \<Rightarrow> True)"

text \<open>A program that leaves the fields of the connection as they are.\<close>

definition keeps_conn :: "'a prog \<Rightarrow> bool" where
  "keeps_conn m = (\<forall>s. fst (snd (m s)) = fst s)"

text \<open>A program that leaves the client handle as it is.\<close>

definition keeps_client :: "'a prog \<Rightarrow> bool" where
  "keeps_client m = (\<forall>s. ssh_client (fst (snd (m s))) = ssh_client (fst s))"

text \<open>
  The weaker invariant: a shell handle is set only when a client handle is. \<^verbatim>\<open>connect\<close>
  assigns the client first and \<^verbatim>\<open>disconnect\<close> clears the shell first.
\<close>

definition shell_needs_client :: "SSHConnection \<Rightarrow> bool" where
  "shell_needs_client c = (shell c = None \<or> ssh_client c \<noteq> None)"

text \<open>A connection, worlds and a library error to run the methods on.\<close>

definition demo_conn :: SSHConnection where
  "demo_conn = init [104] [117] [112] 22 4096"

definition demo_world :: "exn option list \<Rightarrow> world" where
  "demo_world fs =
     \<lparr>failures = fs, interrupts = [], ready = [], chunks = [], next_handle = 0, trace = []\<rparr>"

definition refused :: exn where
  "refused = Exn (LibraryError ''SSHException'') [110, 111]"

definition closed :: exn where
  "closed = Exn (LibraryError ''EOFError'') []"

definition demo_connected :: SSHConnection where
  "demo_connected = demo_conn\<lparr>ssh_client := Some 0, shell := Some 1\<rparr>"

section \<open>Properties of the output parser\<close>

lemma strip_eq_Nil: "strip s = [] \<longleftrightarrow> (\<forall>x \<in> set s. is_space x)"
proof
  assume "strip s = []"
  then have a: "\<forall>x \<in> set (dropWhile is_space s). is_space x"
    by (simp add: strip_def)
  have "dropWhile is_space s = []"
  proof (rule ccontr)
    assume n: "dropWhile is_space s \<noteq> []"
    then have "\<not> is_space (hd (dropWhile is_space s))" by (rule hd_dropWhile)
    moreover have "hd (dropWhile is_space s) \<in> set (dropWhile is_space s)" using n by simp
    ultimately show False using a by blast
  qed
  then show "\<forall>x \<in> set s. is_space x" by simp
next
  assume "\<forall>x \<in> set s. is_space x"
  then have "dropWhile is_space s = []" by simp
  then show "strip s = []" unfolding strip_def by (simp only: rev.simps dropWhile.simps)
qed

lemma dropWhile_strip:
  "dropWhile is_space s = strip s @ rev (takeWhile is_space (rev (dropWhile is_space s)))"
proof -
  let ?d = "dropWhile is_space s"
  have "strip s @ rev (takeWhile is_space (rev ?d)) =
        rev (takeWhile is_space (rev ?d) @ dropWhile is_space (rev ?d))"
    by (simp only: strip_def rev_append)
  also have "\<dots> = rev (rev ?d)" by (simp only: takeWhile_dropWhile_id)
  also have "\<dots> = ?d" by simp
  finally show ?thesis by simp
qed

lemma strip_decomp:
  "s = takeWhile is_space s @ strip s @ rev (takeWhile is_space (rev (dropWhile is_space s)))"
proof -
  have "s = takeWhile is_space s @ dropWhile is_space s" by simp
  then show ?thesis using dropWhile_strip [of s] by simp
qed

lemma strip_last: "strip s \<noteq> [] \<Longrightarrow> \<not> is_space (last (strip s))"
proof -
  assume n: "strip s \<noteq> []"
  let ?r = "dropWhile is_space (rev (dropWhile is_space s))"
  from n have "?r \<noteq> []" unfolding strip_def by (simp only: rev_is_Nil_conv not_False_eq_True)
  then have "\<not> is_space (hd ?r)" by (rule hd_dropWhile)
  moreover have "last (strip s) = hd ?r" unfolding strip_def by (simp only: last_rev)
  ultimately show ?thesis by simp
qed

lemma strip_hd: "strip s \<noteq> [] \<Longrightarrow> \<not> is_space (hd (strip s))"
proof -
  assume n: "strip s \<noteq> []"
  let ?d = "dropWhile is_space s"
  note d = dropWhile_strip [of s]
  have "?d \<noteq> []" using n by (subst d) (simp only: append_is_Nil_conv, simp)
  then have "\<not> is_space (hd ?d)" by (rule hd_dropWhile)
  moreover have "hd ?d = hd (strip s)" by (subst d) (rule hd_append2 [OF n])
  ultimately show ?thesis by simp
qed

lemma strip_id: "\<not> is_space (hd e) \<Longrightarrow> \<not> is_space (last e) \<Longrightarrow> strip e = e"
proof (cases e)
  case Nil then show ?thesis by (simp add: strip_def)
next
  case (Cons a as)
  assume h: "\<not> is_space (hd e)" and l: "\<not> is_space (last e)"
  from Cons h have 1: "dropWhile is_space e = e" by simp
  have "hd (rev e) = last e" using Cons by (simp add: hd_rev)
  then have 2: "dropWhile is_space (rev e) = rev e" using l by (simp only: dropWhile_eq_self_iff, simp)
  show ?thesis by (simp only: strip_def 1 2 rev_rev_ident)
qed

lemma set_strip: "set (strip s) \<subseteq> set s"
proof -
  have "set (strip s) \<subseteq> set (takeWhile is_space s @ strip s @ rev (takeWhile is_space (rev (dropWhile is_space s))))"
    by (simp only: set_append) blast
  then show ?thesis by (simp only: strip_decomp [symmetric])
qed


lemma splitlines_Cons:
  assumes "s \<noteq> []"
  shows "splitlines s =
     (case dropWhile (\<lambda>x. \<not> is_linebreak x) s of
        [] \<Rightarrow> [takeWhile (\<lambda>x. \<not> is_linebreak x) s]
      | b # bs \<Rightarrow>
          (if b = 13 \<and> bs \<noteq> [] \<and> hd bs = 10
           then takeWhile (\<lambda>x. \<not> is_linebreak x) s # splitlines (tl bs)
           else takeWhile (\<lambda>x. \<not> is_linebreak x) s # splitlines bs))"
proof (cases s)
  case Nil
  with assms show ?thesis by simp
next
  case (Cons a as)
  show ?thesis unfolding Cons by (simp only: splitlines.simps Let_def)
qed

lemma splitlines_no_break: "\<forall>l \<in> set (splitlines s). \<forall>x \<in> set l. \<not> is_linebreak x"
proof (induction s rule: splitlines.induct)
  case 1
  show ?case by simp
next
  case (2 c cs)
  let ?s = "c # cs"
  let ?line = "takeWhile (\<lambda>x. \<not> is_linebreak x) ?s"
  let ?rest = "dropWhile (\<lambda>x. \<not> is_linebreak x) ?s"
  have line: "\<forall>x \<in> set ?line. \<not> is_linebreak x"
    by (metis (mono_tags, lifting) set_takeWhileD)
  have ne: "?s \<noteq> []" by simp
  note eq = splitlines_Cons [OF ne]
  show ?case
  proof (cases ?rest)
    case Nil
    have "splitlines ?s = [?line]" unfolding eq Nil by simp
    then show ?thesis using line by (simp only: list.set) blast
  next
    case (Cons b bs)
    show ?thesis
    proof (cases "b = 13 \<and> bs \<noteq> [] \<and> hd bs = 10")
      case True
      have "splitlines ?s = ?line # splitlines (tl bs)"
        unfolding eq Cons using True by simp
      moreover have "\<forall>l \<in> set (splitlines (tl bs)). \<forall>x \<in> set l. \<not> is_linebreak x"
        using "2.IH"(1) [OF refl refl Cons True] .
      ultimately show ?thesis using line by (simp only: list.set) blast
    next
      case False
      have "splitlines ?s = ?line # splitlines bs"
        unfolding eq Cons using False by auto
      moreover have "\<forall>l \<in> set (splitlines bs). \<forall>x \<in> set l. \<not> is_linebreak x"
        using "2.IH"(2) [OF refl refl Cons False] .
      ultimately show ?thesis using line by (simp only: list.set) blast
    qed
  qed
qed

lemma splitlines_line:
  assumes "l \<noteq> []" and "\<forall>x \<in> set l. \<not> is_linebreak x"
  shows "splitlines (l @ 10 # rest) = l # splitlines rest"
proof -
  have t: "takeWhile (\<lambda>x. \<not> is_linebreak x) (l @ 10 # rest) = l"
    using assms(2) by (simp add: takeWhile_append2 is_linebreak_def)
  have d: "dropWhile (\<lambda>x. \<not> is_linebreak x) (l @ 10 # rest) = 10 # rest"
    using assms(2) by (simp add: dropWhile_append2 is_linebreak_def)
  have "l @ 10 # rest \<noteq> []" by simp
  from splitlines_Cons [OF this] show ?thesis unfolding t d by simp
qed

lemma splitlines_last:
  assumes "l \<noteq> []" and "\<forall>x \<in> set l. \<not> is_linebreak x"
  shows "splitlines l = [l]"
proof -
  have t: "takeWhile (\<lambda>x. \<not> is_linebreak x) l = l"
    using assms(2) by (simp add: takeWhile_eq_all_conv)
  have d: "dropWhile (\<lambda>x. \<not> is_linebreak x) l = []"
    using assms(2) by simp
  from splitlines_Cons [OF assms(1)] show ?thesis unfolding t d by simp
qed

lemma splitlines_join:
  "\<forall>e \<in> set es. e \<noteq> [] \<and> (\<forall>x \<in> set e. \<not> is_linebreak x) \<Longrightarrow> splitlines (join [10] es) = es"
proof (induction es rule: induct_list012)
  case 1
  show ?case by simp
next
  case (2 x)
  then show ?case by (simp add: splitlines_last del: splitlines.simps)
next
  case (3 x y zs)
  then have "splitlines (join [10] (y # zs)) = y # zs" by simp
  moreover have "splitlines (x @ 10 # join [10] (y # zs)) = x # splitlines (join [10] (y # zs))"
    using 3(3) by (intro splitlines_line) simp_all
  ultimately show ?case by simp
qed

lemma comprehension_map_filter:
  "concat (map (\<lambda>x. if P x then [f x] else []) xs) = map f (filter P xs)"
  by (induction xs) simp_all

lemma parse_cmd_output_eq:
  "parse_cmd_output s = map strip (filter (\<lambda>line. strip line \<noteq> []) (splitlines s))"
  unfolding parse_cmd_output_def by (rule comprehension_map_filter)

lemma parse_cmd_output_entry:
  assumes "e \<in> set (parse_cmd_output s)"
  shows "e \<noteq> [] \<and> \<not> is_space (hd e) \<and> \<not> is_space (last e) \<and> (\<forall>x \<in> set e. \<not> is_linebreak x)"
proof -
  from assms obtain line where l: "line \<in> set (splitlines s)" and e: "e = strip line" and n: "strip line \<noteq> []"
    unfolding parse_cmd_output_eq by auto
  have "\<forall>x \<in> set line. \<not> is_linebreak x" using splitlines_no_break l by blast
  then have "\<forall>x \<in> set e. \<not> is_linebreak x" using set_strip [of line] e by blast
  then show ?thesis using e n strip_hd [OF n] strip_last [OF n] by simp
qed

text \<open>
  Claim C1. For every input string, \<open>parse_cmd_output\<close> returns the lines of the input
  whose stripped text is not empty, each stripped, in their order in the input; no entry of the
  result is empty or starts or ends with white space; and stripping a line removes only white
  space, at its two ends.
\<close>

theorem parse_cmd_output_lines:
  "parse_cmd_output s = map strip (filter (\<lambda>line. strip line \<noteq> []) (splitlines s)) \<and>
   (\<forall>e \<in> set (parse_cmd_output s). e \<noteq> [] \<and> \<not> is_space (hd e) \<and> \<not> is_space (last e)) \<and>
   (\<forall>line \<in> set (splitlines s). \<exists>pre post.
      list_all is_space pre \<and> list_all is_space post \<and> line = pre @ strip line @ post)"
proof (intro conjI ballI)
  show "parse_cmd_output s = map strip (filter (\<lambda>line. strip line \<noteq> []) (splitlines s))"
    by (rule parse_cmd_output_eq)
next
  fix e assume "e \<in> set (parse_cmd_output s)"
  then show "e \<noteq> []" and "\<not> is_space (hd e)" and "\<not> is_space (last e)"
    using parse_cmd_output_entry by blast+
next
  fix line
  let ?pre = "takeWhile is_space line"
  let ?post = "rev (takeWhile is_space (rev (dropWhile is_space line)))"
  have "list_all is_space ?pre" by (auto simp: list_all_iff dest: set_takeWhileD)
  moreover have "list_all is_space ?post" by (auto simp: list_all_iff dest: set_takeWhileD)
  moreover have "line = ?pre @ strip line @ ?post" by (rule strip_decomp)
  ultimately show "\<exists>pre post. list_all is_space pre \<and> list_all is_space post \<and> line = pre @ strip line @ post"
    by blast
qed

theorem parse_cmd_output_lines_witness:
  "parse_cmd_output [32, 97, 13, 10, 98, 10, 13, 32, 99, 100, 31, 10, 9, 9, 10] = [[97], [98], [99, 100]] \<and>
   \<not> is_space 97 \<and> \<not> is_space 98 \<and> \<not> is_space 99 \<and> \<not> is_space 100"
proof -
  let ?s = "[32, 97, 13, 10, 98, 10, 13, 32, 99, 100, 31, 10, 9, 9, 10] :: pystr"
  have v: "parse_cmd_output ?s = [[97], [98], [99, 100]]" by (simp add: parse_cmd_output_def strip_def is_space_def is_linebreak_def Let_def)
  have "\<forall>e \<in> set (parse_cmd_output ?s). e \<noteq> [] \<and> \<not> is_space (hd e) \<and> \<not> is_space (last e)"
    using parse_cmd_output_lines [of ?s] by blast
  then show ?thesis unfolding v by simp
qed

text \<open>
  Claim C10. Parsing is stable: joining the result with newlines and parsing again gives the
  same list.
\<close>

theorem parse_cmd_output_stable:
  "parse_cmd_output (join [10] (parse_cmd_output s)) = parse_cmd_output s"
proof -
  let ?es = "parse_cmd_output s"
  have ent: "\<forall>e \<in> set ?es. e \<noteq> [] \<and> \<not> is_space (hd e) \<and> \<not> is_space (last e) \<and> (\<forall>x \<in> set e. \<not> is_linebreak x)"
    using parse_cmd_output_entry by blast
  then have sp: "splitlines (join [10] ?es) = ?es" by (intro splitlines_join) blast
  have id: "\<forall>e \<in> set ?es. strip e = e" using ent strip_id by blast
  have ne: "\<forall>e \<in> set ?es. strip e \<noteq> []" using ent id by simp
  have "filter (\<lambda>line. strip line \<noteq> []) ?es = ?es" using ne by (simp add: filter_id_conv)
  moreover have "map strip ?es = ?es" using id by (simp add: map_idI)
  ultimately show ?thesis by (subst parse_cmd_output_eq) (simp only: sp)
qed

section \<open>Properties of the connection\<close>

declare recv_loop.simps [simp del]

declare digits.simps [simp del]

lemma and_then_Inr:
  "and_then m f s = (Inr b, s') \<longleftrightarrow> (\<exists>a s1. m s = (Inr a, s1) \<and> f a s1 = (Inr b, s'))"
  by (auto simp: and_then_def split: prod.splits sum.splits)

subsection \<open>Programs that leave the connection as it is\<close>

lemma keepsD: "keeps_conn m \<Longrightarrow> fst (snd (m s)) = fst s"
  unfolding keeps_conn_def by (rule spec)

lemma keeps_ret: "keeps_conn (ret a)"
  by (simp add: keeps_conn_def ret_def)

lemma keeps_raise: "keeps_conn (raise_exn e)"
  by (simp add: keeps_conn_def raise_exn_def)

lemma keeps_self: "keeps_conn self"
  by (simp add: keeps_conn_def self_def)

lemma keeps_log: "keeps_conn (log ev)"
  by (simp add: keeps_conn_def log_def)

lemma keeps_lib_call: "keeps_conn (lib_call ev)"
  by (simp add: keeps_conn_def lib_call_def log_def split: list.splits)

lemma keeps_fresh: "keeps_conn fresh_handle"
  by (simp add: keeps_conn_def fresh_handle_def)

lemma keeps_and_then:
  assumes "keeps_conn m" and "\<And>a. keeps_conn (f a)"
  shows "keeps_conn (and_then m f)"
  unfolding keeps_conn_def
proof
  fix s
  obtain r s1 where ms: "m s = (r, s1)" by (cases "m s")
  have 1: "fst s1 = fst s"
    using assms(1) [unfolded keeps_conn_def, rule_format, of s] ms by simp
  show "fst (snd (and_then m f s)) = fst s"
  proof (cases r)
    case (Inl e)
    then show ?thesis using ms 1 by (simp add: and_then_def)
  next
    case (Inr a)
    have "fst (snd (f a s1)) = fst s1"
      using assms(2) [unfolded keeps_conn_def, rule_format] .
    then show ?thesis using ms 1 Inr by (simp add: and_then_def)
  qed
qed

lemma keeps_try_except:
  assumes "keeps_conn m" and "\<And>e. keeps_conn (h e)"
  shows "keeps_conn (try_except m h)"
  unfolding keeps_conn_def
proof
  fix s
  obtain r s1 where ms: "m s = (r, s1)" by (cases "m s")
  have 1: "fst s1 = fst s"
    using assms(1) [unfolded keeps_conn_def, rule_format, of s] ms by simp
  show "fst (snd (try_except m h s)) = fst s"
  proof (cases r)
    case (Inr a)
    then show ?thesis using ms 1 by (simp add: try_except_def)
  next
    case (Inl e)
    have "fst (snd (h e s1)) = fst s1"
      using assms(2) [unfolded keeps_conn_def, rule_format] .
    then show ?thesis using ms 1 Inl by (simp add: try_except_def)
  qed
qed

lemma keeps_if: "keeps_conn a \<Longrightarrow> keeps_conn b \<Longrightarrow> keeps_conn (if c then a else b)"
  by simp

lemma keeps_dep: "(\<And>s. keeps_conn (f s)) \<Longrightarrow> keeps_conn (\<lambda>s. f s s)"
  by (simp add: keeps_conn_def)

lemma keeps_time_sleep: "keeps_conn (time_sleep d)"
  by (simp add: keeps_conn_def time_sleep_def raise_exn_def log_def
      split: option.splits list.splits)

lemma keeps_py_print: "keeps_conn (py_print m)"
  by (simp add: py_print_def keeps_log)

lemma keeps_the_shell: "keeps_conn the_shell"
  by (simp add: keeps_conn_def the_shell_def ret_def raise_exn_def split: option.splits)

lemma keeps_the_client: "keeps_conn the_client"
  by (simp add: keeps_conn_def the_client_def ret_def raise_exn_def split: option.splits)

lemma keeps_recv_ready: "keeps_conn (recv_ready h)"
  unfolding recv_ready_def
  by (intro keeps_and_then keeps_lib_call) (simp add: keeps_conn_def ret_def split: list.splits)

lemma keeps_recv_decoded: "keeps_conn (recv_decoded h n)"
  unfolding recv_decoded_def
  by (intro keeps_and_then keeps_lib_call) (simp add: keeps_conn_def ret_def split: list.splits)

lemma keeps_channel_send: "keeps_conn (channel_send h x)"
  by (simp add: channel_send_def keeps_lib_call)

lemma keeps_flush_buffer: "keeps_conn flush_buffer"
  unfolding keeps_conn_def
proof
  fix s
  show "fst (snd (flush_buffer s)) = fst s"
  proof (cases "shell (fst s)")
    case None
    then show ?thesis by (simp add: flush_buffer_def ret_def)
  next
    case (Some h)
    have "keeps_conn (and_then (recv_ready h) (\<lambda>r.
            if r then and_then self (\<lambda>c. and_then (recv_decoded h (buffer_size c)) (\<lambda>_. ret ()))
            else ret ()))"
      by (intro keeps_and_then keeps_recv_ready keeps_if keeps_self keeps_recv_decoded keeps_ret)
    from keepsD [OF this, of s] show ?thesis using Some by (simp add: flush_buffer_def)
  qed
qed


subsection \<open>What programs add to the trace\<close>

lemma emitsD:
  "emits Q m \<Longrightarrow> \<exists>evs. trace (snd (snd (m s))) = trace (snd s) @ evs \<and> list_all Q evs"
  unfolding emits_def by (rule spec)

lemma emitsI:
  "(\<And>s. \<exists>evs. trace (snd (snd (m s))) = trace (snd s) @ evs \<and> list_all Q evs) \<Longrightarrow> emits Q m"
  unfolding emits_def by (rule allI)

lemma emits_silent: "(\<And>s. trace (snd (snd (m s))) = trace (snd s)) \<Longrightarrow> emits Q m"
proof (rule emitsI)
  fix s
  assume "\<And>s. trace (snd (snd (m s))) = trace (snd s)"
  then have "trace (snd (snd (m s))) = trace (snd s) @ [] \<and> list_all Q []" by simp
  then show "\<exists>evs. trace (snd (snd (m s))) = trace (snd s) @ evs \<and> list_all Q evs" by blast
qed

lemma emits_mono:
  assumes "emits Q m" and "\<And>ev. Q ev \<Longrightarrow> Q' ev"
  shows "emits Q' m"
proof (rule emitsI)
  fix s
  from emitsD [OF assms(1), of s] obtain evs where
    e: "trace (snd (snd (m s))) = trace (snd s) @ evs" and q: "list_all Q evs" by blast
  from q assms(2) have "list_all Q' evs" by (simp add: list_all_iff)
  with e show "\<exists>evs. trace (snd (snd (m s))) = trace (snd s) @ evs \<and> list_all Q' evs" by blast
qed

lemma emits_ret: "emits Q (ret a)"
  by (rule emits_silent) (simp add: ret_def)

lemma emits_raise: "emits Q (raise_exn e)"
  by (rule emits_silent) (simp add: raise_exn_def)

lemma emits_self: "emits Q self"
  by (rule emits_silent) (simp add: self_def)

lemma emits_set_ssh_client: "emits Q (set_ssh_client v)"
  by (rule emits_silent) (simp add: set_ssh_client_def)

lemma emits_set_shell: "emits Q (set_shell v)"
  by (rule emits_silent) (simp add: set_shell_def)

lemma emits_fresh: "emits Q fresh_handle"
  by (rule emits_silent) (simp add: fresh_handle_def)

lemma emits_the_shell: "emits Q the_shell"
  by (rule emits_silent) (simp add: the_shell_def ret_def raise_exn_def split: option.splits)

lemma emits_the_client: "emits Q the_client"
  by (rule emits_silent) (simp add: the_client_def ret_def raise_exn_def split: option.splits)

lemma log_trace: "trace (snd (snd (log ev s))) = trace (snd s) @ [ev]"
  by (simp add: log_def)

lemma lib_call_trace: "trace (snd (snd (lib_call ev s))) = trace (snd s) @ [ev]"
  by (simp add: lib_call_def log_def split: list.splits)

lemma emits_log: "Q ev \<Longrightarrow> emits Q (log ev)"
proof (rule emitsI)
  fix s
  assume "Q ev"
  then have "trace (snd (snd (log ev s))) = trace (snd s) @ [ev] \<and> list_all Q [ev]"
    by (simp add: log_trace)
  then show "\<exists>evs. trace (snd (snd (log ev s))) = trace (snd s) @ evs \<and> list_all Q evs" by blast
qed

lemma emits_lib_call: "Q ev \<Longrightarrow> emits Q (lib_call ev)"
proof (rule emitsI)
  fix s
  assume "Q ev"
  then have "trace (snd (snd (lib_call ev s))) = trace (snd s) @ [ev] \<and> list_all Q [ev]"
    by (simp add: lib_call_trace)
  then show "\<exists>evs. trace (snd (snd (lib_call ev s))) = trace (snd s) @ evs \<and> list_all Q evs"
    by blast
qed

lemma emits_and_then:
  assumes "emits Q m" and "\<And>a. emits Q (f a)"
  shows "emits Q (and_then m f)"
proof (rule emitsI)
  fix s
  obtain r s1 where ms: "m s = (r, s1)" by (cases "m s")
  from emitsD [OF assms(1), of s] ms obtain evs where
    e: "trace (snd s1) = trace (snd s) @ evs" and q: "list_all Q evs" by auto
  show "\<exists>evs. trace (snd (snd (and_then m f s))) = trace (snd s) @ evs \<and> list_all Q evs"
  proof (cases r)
    case (Inl x)
    then have "and_then m f s = (Inl x, s1)" using ms by (simp add: and_then_def)
    then show ?thesis using e q by auto
  next
    case (Inr a)
    then have af: "and_then m f s = f a s1" using ms by (simp add: and_then_def)
    from emitsD [OF assms(2), of a s1] obtain evs2 where
      e2: "trace (snd (snd (f a s1))) = trace (snd s1) @ evs2" and q2: "list_all Q evs2" by blast
    have "trace (snd (snd (and_then m f s))) = trace (snd s) @ (evs @ evs2) \<and> list_all Q (evs @ evs2)"
      using af e e2 q q2 by simp
    then show ?thesis by blast
  qed
qed

lemma emits_try_except:
  assumes "emits Q m" and "\<And>e. emits Q (h e)"
  shows "emits Q (try_except m h)"
proof (rule emitsI)
  fix s
  obtain r s1 where ms: "m s = (r, s1)" by (cases "m s")
  from emitsD [OF assms(1), of s] ms obtain evs where
    e: "trace (snd s1) = trace (snd s) @ evs" and q: "list_all Q evs" by auto
  show "\<exists>evs. trace (snd (snd (try_except m h s))) = trace (snd s) @ evs \<and> list_all Q evs"
  proof (cases r)
    case (Inr a)
    then have "try_except m h s = (Inr a, s1)" using ms by (simp add: try_except_def)
    then show ?thesis using e q by auto
  next
    case (Inl x)
    show ?thesis
    proof (cases "is_Exception x")
      case False
      then have "try_except m h s = (Inl x, s1)" using ms Inl by (simp add: try_except_def)
      then show ?thesis using e q by auto
    next
      case True
      then have af: "try_except m h s = h x s1" using ms Inl by (simp add: try_except_def)
      from emitsD [OF assms(2), of x s1] obtain evs2 where
        e2: "trace (snd (snd (h x s1))) = trace (snd s1) @ evs2" and q2: "list_all Q evs2"
        by blast
      have "trace (snd (snd (try_except m h s))) = trace (snd s) @ (evs @ evs2) \<and>
          list_all Q (evs @ evs2)"
        using af e e2 q q2 by simp
      then show ?thesis by blast
    qed
  qed
qed

lemma emits_if: "emits Q a \<Longrightarrow> emits Q b \<Longrightarrow> emits Q (if c then a else b)"
  by simp

lemma time_sleep_trace:
  "trace (snd (snd (time_sleep d s))) =
     trace (snd s) @ (case sleep_error d of None \<Rightarrow> [Sleep d] | Some e \<Rightarrow> [])"
  by (simp add: time_sleep_def raise_exn_def log_def split: option.splits list.splits)

lemma emits_time_sleep: "Q (Sleep d) \<Longrightarrow> emits Q (time_sleep d)"
proof (rule emitsI)
  fix s
  assume "Q (Sleep d)"
  then have "list_all Q (case sleep_error d of None \<Rightarrow> [Sleep d] | Some e \<Rightarrow> [])"
    by (simp split: option.splits)
  then show "\<exists>evs. trace (snd (snd (time_sleep d s))) = trace (snd s) @ evs \<and> list_all Q evs"
    using time_sleep_trace [of d s] by blast
qed

lemma emits_py_print: "Q (Print m) \<Longrightarrow> emits Q (py_print m)"
  by (simp add: py_print_def emits_log)

lemma pop_ready_silent:
  "emits Q (\<lambda>s. case ready (snd s) of [] \<Rightarrow> ret False s | b # bs \<Rightarrow> ret b (fst s, (snd s)\<lparr>ready := bs\<rparr>))"
  by (rule emits_silent) (simp add: ret_def split: list.splits)

lemma pop_chunk_silent:
  "emits Q (\<lambda>s. case chunks (snd s) of [] \<Rightarrow> ret [] s | d # ds \<Rightarrow> ret d (fst s, (snd s)\<lparr>chunks := ds\<rparr>))"
  by (rule emits_silent) (simp add: ret_def split: list.splits)

lemma emits_recv_ready: "Q (Recv_ready h) \<Longrightarrow> emits Q (recv_ready h)"
  unfolding recv_ready_def by (intro emits_and_then emits_lib_call pop_ready_silent)

lemma emits_recv_decoded: "Q (Recv h n) \<Longrightarrow> emits Q (recv_decoded h n)"
  unfolding recv_decoded_def by (intro emits_and_then emits_lib_call pop_chunk_silent)

lemma emits_channel_send: "Q (Send h x) \<Longrightarrow> emits Q (channel_send h x)"
  by (simp add: channel_send_def emits_lib_call)

lemma emits_flush_buffer:
  assumes "\<And>h. Q (Recv_ready h)" and "\<And>h n. Q (Recv h n)"
  shows "emits Q flush_buffer"
proof (rule emitsI)
  fix s
  show "\<exists>evs. trace (snd (snd (flush_buffer s))) = trace (snd s) @ evs \<and> list_all Q evs"
  proof (cases "shell (fst s)")
    case None
    then have "flush_buffer s = ret () s" by (simp add: flush_buffer_def)
    then show ?thesis using emitsD [OF emits_ret, of "()" s] by simp
  next
    case (Some h)
    have "emits Q (and_then (recv_ready h) (\<lambda>r.
            if r then and_then self (\<lambda>c. and_then (recv_decoded h (buffer_size c)) (\<lambda>_. ret ()))
            else ret ()))"
      by (intro emits_and_then emits_recv_ready emits_if emits_self emits_recv_decoded emits_ret assms)
    from emitsD [OF this, of s] show ?thesis using Some by (simp add: flush_buffer_def)
  qed
qed


subsection \<open>The methods of the connection\<close>

lemmas prim_defs =
  ret_def raise_exn_def and_then_def try_except_def self_def set_ssh_client_def set_shell_def
  log_def lib_call_def fresh_handle_def py_print_def time_sleep_def the_client_def the_shell_def
  paramiko_SSHClient_def set_missing_host_key_policy_def client_connect_def invoke_shell_def
  channel_send_def recv_ready_def recv_decoded_def channel_close_def client_close_def

lemmas method_defs =
  is_connected_def flush_buffer_def connect_body_def connect_def disconnect_def reconnect_def
  send_command_def run_cmd_def init_def ascii_def

text \<open>
  Claim C4. In every state of a connection, \<open>is_connected\<close> is true exactly when the
  client handle and the shell handle are both non-null.
\<close>

theorem is_connected_iff:
  "is_connected c \<longleftrightarrow> ssh_client c \<noteq> None \<and> shell c \<noteq> None"
  by (simp add: is_connected_def)

text \<open>
  Claim C6, as the code has it. \<open>connect\<close> raises exactly when a step of its body raises.
  When that exception is an instance of \<^verbatim>\<open>Exception\<close>, whatever the step and the class,
  \<open>connect\<close> raises a ConnectionError whose message carries the text of the exception; an
  exception that is not (KeyboardInterrupt, SystemExit) leaves \<open>connect\<close> as it is. Nothing
  else leaves \<open>connect\<close>.
\<close>

theorem connect_raises_ConnectionError:
  "connect disable_pagination s = (Inl e, s') \<longleftrightarrow>
     (\<exists>e0. connect_body disable_pagination s = (Inl e0, s') \<and>
           e = (if is_Exception e0
                then Exn ConnectionError (ascii ''[!] SSH connection failed: '' @ str_exn e0)
                else e0))"
proof -
  obtain r s1 where "connect_body disable_pagination s = (r, s1)"
    by (cases "connect_body disable_pagination s")
  then show ?thesis
    by (cases r) (auto simp: connect_def try_except_def raise_exn_def)
qed

text \<open>
  A KeyboardInterrupt that arrives while the client connects leaves \<open>connect\<close> unconverted.
\<close>

theorem connect_passes_interrupt:
  "fst (connect False (demo_conn, demo_world [None, None, Some (Exn KeyboardInterrupt [])])) =
     Inl (Exn KeyboardInterrupt [])"
  by (simp add: demo_conn_def demo_world_def prim_defs method_defs)

text \<open>
  Claim C8. When \<open>is_connected\<close> is false, \<open>send_command\<close> raises ConnectionError and
  leaves the connection (the two handles and the configuration) and the world as they were:
  nothing is sent, no event is added to the trace.
\<close>

theorem send_command_not_connected:
  "\<not> is_connected (fst s) \<Longrightarrow>
   send_command command wait_time s =
     (Inl (Exn ConnectionError (ascii ''SSH connection is not active.'')), s)"
  by (simp add: send_command_def raise_exn_def)

theorem send_command_not_connected_witness:
  "send_command [108, 115] (Finite 1)
     (init [104] [117] [112] 22 4096,
      \<lparr>failures = [], interrupts = [], ready = [True], chunks = [[97]], next_handle = 0,
       trace = []\<rparr>) =
   (Inl (Exn ConnectionError (ascii ''SSH connection is not active.'')),
    init [104] [117] [112] 22 4096,
    \<lparr>failures = [], interrupts = [], ready = [True], chunks = [[97]], next_handle = 0,
       trace = []\<rparr>)"
  using send_command_not_connected
    [of "(init [104] [117] [112] 22 4096,
          \<lparr>failures = [], interrupts = [], ready = [True], chunks = [[97]], next_handle = 0,
       trace = []\<rparr>)"
        "[108, 115]" "Finite 1"]
  by (simp add: is_connected_def init_def)

lemmas disconnect_defs =
  disconnect_def and_then_def self_def ret_def channel_close_def client_close_def lib_call_def
  log_def set_shell_def set_ssh_client_def


lemma disconnect_returns:
  assumes "fst (disconnect s) = Inr ()"
  shows "fst (snd (disconnect s)) = (fst s)\<lparr>ssh_client := None, shell := None\<rparr>"
  using assms
  by (cases "shell (fst s)"; cases "ssh_client (fst s)")
    (auto simp: disconnect_defs split: list.splits option.splits)

lemma disconnect_raises:
  assumes "fst (disconnect s) = Inl e"
  shows "(shell (fst s) \<noteq> None \<and> fst (snd (disconnect s)) = fst s) \<or>
    (ssh_client (fst s) \<noteq> None \<and> fst (snd (disconnect s)) = (fst s)\<lparr>shell := None\<rparr>)"
  using assms
  by (cases "shell (fst s)"; cases "ssh_client (fst s)")
    (auto simp: disconnect_defs split: list.splits option.splits)



lemma demo_disconnect:
  "disconnect (demo_connected, demo_world []) =
     (Inr (), demo_conn,
      \<lparr>failures = [], interrupts = [], ready = [], chunks = [], next_handle = 0,
       trace = [Channel_close 1, Client_close 0]\<rparr>)"
  by (simp add: demo_connected_def demo_conn_def demo_world_def init_def disconnect_defs)

lemma demo_disconnect_client_raises:
  "disconnect (demo_connected, demo_world [None, Some closed]) =
     (Inl closed, demo_connected\<lparr>shell := None\<rparr>,
      \<lparr>failures = [], interrupts = [], ready = [], chunks = [], next_handle = 0,
       trace = [Channel_close 1, Client_close 0]\<rparr>)"
  by (simp add: demo_connected_def demo_conn_def demo_world_def init_def disconnect_defs)



lemma keeps_eq: "m s = (r, s1) \<Longrightarrow> keeps_conn m \<Longrightarrow> fst s1 = fst s"
  using keepsD [of m s] by simp

lemma keeps_paramiko_SSHClient: "keeps_conn paramiko_SSHClient"
  unfolding paramiko_SSHClient_def by (intro keeps_and_then keeps_lib_call keeps_fresh)

lemma keeps_invoke_shell: "keeps_conn (invoke_shell h)"
  unfolding invoke_shell_def by (intro keeps_and_then keeps_lib_call keeps_fresh)

lemma keeps_set_policy: "keeps_conn (set_missing_host_key_policy h)"
  by (simp add: set_missing_host_key_policy_def keeps_lib_call)

lemma keeps_client_connect: "keeps_conn (client_connect h a b c d)"
  by (simp add: client_connect_def keeps_lib_call)

lemma connect_body_success:
  assumes "connect_body dp s = (Inr u, s')"
  shows "ssh_client (fst s') \<noteq> None \<and> shell (fst s') \<noteq> None"
proof -
  from assms obtain client s1 s2 h1 s3 s4 h2 s5 c s6 s7 h3 s8 chan s9 s10 s11 s12 where
    f1: "paramiko_SSHClient s = (Inr client, s1)" and
    f2: "set_ssh_client (Some client) s1 = (Inr (), s2)" and
    f3: "the_client s2 = (Inr h1, s3)" and
    f4: "set_missing_host_key_policy h1 s3 = (Inr (), s4)" and
    f5: "the_client s4 = (Inr h2, s5)" and
    f6: "self s5 = (Inr c, s6)" and
    f7: "client_connect h2 (host c) (port c) (username c) (password c) s6 = (Inr (), s7)" and
    f8: "the_client s7 = (Inr h3, s8)" and
    f9: "invoke_shell h3 s8 = (Inr chan, s9)" and
    f10: "set_shell (Some chan) s9 = (Inr (), s10)" and
    f11: "time_sleep (Finite 1) s10 = (Inr (), s11)" and
    f12: "flush_buffer s11 = (Inr (), s12)" and
    f13: "(if dp
           then and_then the_shell (\<lambda>h.
                and_then (channel_send h (ascii ''terminal length 0'' @ [10])) (\<lambda>_.
                time_sleep (Finite 1)))
           else ret ()) s12 = (Inr u, s')"
    unfolding connect_body_def by (simp only: and_then_Inr) (elim exE conjE, simp)
  have k13: "keeps_conn (if dp
           then and_then the_shell (\<lambda>h.
                and_then (channel_send h (ascii ''terminal length 0'' @ [10])) (\<lambda>_.
                time_sleep (Finite 1)))
           else ret ())"
    by (intro keeps_if keeps_and_then keeps_the_shell keeps_channel_send keeps_time_sleep keeps_ret)
  have "fst s' = fst s10"
    using keeps_eq [OF f13 k13] keeps_eq [OF f12 keeps_flush_buffer]
      keeps_eq [OF f11 keeps_time_sleep] by simp
  moreover have "fst s10 = (fst s9)\<lparr>shell := Some chan\<rparr>"
    using f10 by (auto simp: set_shell_def)
  moreover have "fst s9 = fst s2"
    using keeps_eq [OF f9 keeps_invoke_shell] keeps_eq [OF f8 keeps_the_client]
      keeps_eq [OF f7 keeps_client_connect] keeps_eq [OF f6 keeps_self]
      keeps_eq [OF f5 keeps_the_client] keeps_eq [OF f4 keeps_set_policy]
      keeps_eq [OF f3 keeps_the_client] by simp
  moreover have "fst s2 = (fst s1)\<lparr>ssh_client := Some client\<rparr>"
    using f2 by (auto simp: set_ssh_client_def)
  ultimately show ?thesis by simp
qed

lemma connect_success:
  assumes "connect dp s = (Inr u, s')"
  shows "ssh_client (fst s') \<noteq> None \<and> shell (fst s') \<noteq> None"
proof -
  obtain r s1 where b: "connect_body dp s = (r, s1)" by (cases "connect_body dp s")
  with assms have "connect_body dp s = (Inr u, s')"
    by (cases r) (auto simp: connect_def try_except_def raise_exn_def split: if_splits)
  then show ?thesis by (rule connect_body_success)
qed


lemma step_effect:
  assumes "keeps_conn m" and "emits Q m" and "m s = (r, s1)"
  shows "fst s1 = fst s \<and> (\<exists>evs. trace (snd s1) = trace (snd s) @ evs \<and> list_all Q evs)"
  using keepsD [OF assms(1), of s] emitsD [OF assms(2), of s] assms(3) by simp

lemma effect_trans:
  assumes "fst s1 = fst s \<and> (\<exists>evs. trace (snd s1) = trace (snd s) @ evs \<and> list_all Q evs)"
    and "fst s2 = fst s1 \<and> (\<exists>evs. trace (snd s2) = trace (snd s1) @ evs \<and> list_all Q evs)"
  shows "fst s2 = fst s \<and> (\<exists>evs. trace (snd s2) = trace (snd s) @ evs \<and> list_all Q evs)"
proof -
  from assms(1) obtain e1 where 1: "trace (snd s1) = trace (snd s) @ e1" "list_all Q e1" by blast
  from assms(2) obtain e2 where 2: "trace (snd s2) = trace (snd s1) @ e2" "list_all Q e2" by blast
  have "trace (snd s2) = trace (snd s) @ (e1 @ e2) \<and> list_all Q (e1 @ e2)" using 1 2 by simp
  then have "\<exists>evs. trace (snd s2) = trace (snd s) @ evs \<and> list_all Q evs" by blast
  then show ?thesis using assms by simp
qed

lemma recv_loop_effect:
  "fst (snd (recv_loop out s)) = fst s \<and>
   (\<exists>evs. trace (snd (snd (recv_loop out s))) = trace (snd s) @ evs \<and> list_all quiet evs)"
proof (induction out s rule: recv_loop.induct)
  case (1 out s)
  let ?A = "and_then the_shell recv_ready"
  let ?B = "and_then the_shell (\<lambda>h. and_then self (\<lambda>c. recv_decoded h (buffer_size c)))"
  have kA: "keeps_conn ?A" by (intro keeps_and_then keeps_the_shell keeps_recv_ready)
  have eA: "emits quiet ?A"
    by (intro emits_and_then emits_the_shell emits_recv_ready) (simp add: quiet_def)
  have kB: "keeps_conn ?B"
    by (intro keeps_and_then keeps_the_shell keeps_self keeps_recv_decoded)
  have eB: "emits quiet ?B"
    by (intro emits_and_then emits_the_shell emits_self emits_recv_decoded) (simp add: quiet_def)
  have eS: "emits quiet (time_sleep (Finite (1 / 10)))"
    by (intro emits_time_sleep) (simp add: quiet_def)
  obtain x s1 where a: "?A s = (x, s1)" by (cases "?A s")
  note A = step_effect [OF kA eA a]
  show ?case
  proof (cases x)
    case (Inl e)
    then have "recv_loop out s = (Inl e, s1)" using a by (simp add: recv_loop.simps)
    then show ?thesis using A by simp
  next
    case (Inr b)
    show ?thesis
    proof (cases b)
      case False
      then have "recv_loop out s = (Inr out, s1)" using a Inr by (simp add: recv_loop.simps)
      then show ?thesis using A by simp
    next
      case True
      obtain x2 s2 where b: "?B s1 = (x2, s2)" by (cases "?B s1")
      note B = effect_trans [OF A step_effect [OF kB eB b]]
      show ?thesis
      proof (cases x2)
        case (Inl e)
        then have "recv_loop out s = (Inl e, s2)"
          using a Inr True b by (simp add: recv_loop.simps)
        then show ?thesis using B by simp
      next
        case dat: (Inr dat)
        obtain x3 s3 where c: "time_sleep (Finite (1 / 10)) s2 = (x3, s3)"
          by (cases "time_sleep (Finite (1 / 10)) s2")
        note C = effect_trans [OF B step_effect [OF keeps_time_sleep eS c]]
        show ?thesis
        proof (cases x3)
          case (Inl e)
          then have "recv_loop out s = (Inl e, s3)"
            using a Inr True b dat c by (simp add: recv_loop.simps)
          then show ?thesis using C by simp
        next
          case u: (Inr u)
          have r: "recv_loop out s = recv_loop (out @ dat) s3"
            using a Inr True b dat c u by (simp add: recv_loop.simps)
          have "fst (snd (recv_loop (out @ dat) s3)) = fst s3 \<and>
            (\<exists>evs. trace (snd (snd (recv_loop (out @ dat) s3))) = trace (snd s3) @ evs \<and>
                   list_all quiet evs)"
            using True "1.IH" [OF a [symmetric] Inr _ b [symmetric] dat c [symmetric] u]
            by simp
          from effect_trans [OF C this] show ?thesis using r by simp
        qed
      qed
    qed
  qed
qed

lemma keeps_recv_loop: "keeps_conn (recv_loop out)"
  unfolding keeps_conn_def using recv_loop_effect by blast


lemma keeps_send_command: "keeps_conn (send_command command wait_time)"
  unfolding keeps_conn_def
proof
  fix s
  have k: "keeps_conn (and_then the_shell (\<lambda>h.
           and_then (channel_send h (command @ [10])) (\<lambda>_.
           and_then (time_sleep wait_time) (\<lambda>_.
           and_then (recv_loop []) (\<lambda>out.
           ret (strip out))))))"
    by (intro keeps_and_then keeps_the_shell keeps_channel_send keeps_time_sleep keeps_recv_loop
        keeps_ret)
  show "fst (snd (send_command command wait_time s)) = fst s"
    using keepsD [OF k, of s] by (simp add: send_command_def raise_exn_def)
qed


lemma emits_case_option:
  "emits Q a \<Longrightarrow> (\<And>h. emits Q (b h)) \<Longrightarrow> emits Q (case x of None \<Rightarrow> a | Some h \<Rightarrow> b h)"
  by (cases x) simp_all

lemma emits_disconnect: "emits quiet disconnect"
  unfolding disconnect_def channel_close_def client_close_def
  by (intro emits_and_then emits_self emits_case_option emits_ret emits_lib_call emits_set_shell
      emits_set_ssh_client) (simp_all add: quiet_def)

lemma paramiko_SSHClient_trace:
  "trace (snd (snd (paramiko_SSHClient s))) = trace (snd s) @ [SSHClient_new]"
  by (simp add: paramiko_SSHClient_def and_then_def lib_call_def log_def fresh_handle_def
      split: list.splits option.splits)

lemma connect_trace:
  "\<exists>evs. trace (snd (snd (connect dp s))) = trace (snd s) @ SSHClient_new # evs \<and>
         list_all quiet evs"
proof -
  let ?K = "\<lambda>client.
     and_then (set_ssh_client (Some client)) (\<lambda>_.
     and_then the_client (\<lambda>h.
     and_then (set_missing_host_key_policy h) (\<lambda>_.
     and_then the_client (\<lambda>h.
     and_then self (\<lambda>c.
     and_then (client_connect h (host c) (port c) (username c) (password c)) (\<lambda>_.
     and_then the_client (\<lambda>h.
     and_then (invoke_shell h) (\<lambda>chan.
     and_then (set_shell (Some chan)) (\<lambda>_.
     and_then (time_sleep (Finite 1)) (\<lambda>_.
     and_then flush_buffer (\<lambda>_.
     if dp
     then and_then the_shell (\<lambda>h.
          and_then (channel_send h (ascii ''terminal length 0'' @ [10])) (\<lambda>_.
          time_sleep (Finite 1)))
     else ret ())))))))))))"
  have eK: "emits quiet (?K client)" for client
    unfolding set_missing_host_key_policy_def client_connect_def invoke_shell_def
    by (intro emits_and_then emits_set_ssh_client emits_the_client emits_lib_call emits_self
        emits_fresh emits_set_shell emits_time_sleep emits_flush_buffer emits_if emits_the_shell
        emits_channel_send emits_ret) (simp_all add: quiet_def)
  obtain r s1 where p: "paramiko_SSHClient s = (r, s1)" by (cases "paramiko_SSHClient s")
  have t1: "trace (snd s1) = trace (snd s) @ [SSHClient_new]"
    using paramiko_SSHClient_trace [of s] p by simp
  show ?thesis
  proof (cases r)
    case (Inl e)
    then have "snd (connect dp s) = s1"
      using p by (simp add: connect_def connect_body_def try_except_def and_then_def raise_exn_def)
    then show ?thesis using t1 by simp
  next
    case (Inr client)
    obtain r2 s2 where k: "?K client s1 = (r2, s2)" by (cases "?K client s1")
    from emitsD [OF eK, of client s1] k obtain evs where
      t2: "trace (snd s2) = trace (snd s1) @ evs" and q: "list_all quiet evs" by auto
    have "connect_body dp s = (r2, s2)"
      using p Inr k by (simp add: connect_body_def and_then_def [of paramiko_SSHClient])
    then have "snd (connect dp s) = s2"
      by (cases r2) (simp_all add: connect_def try_except_def raise_exn_def)
    then show ?thesis using t1 t2 q by simp
  qed
qed

subsection \<open>Reading traces\<close>

lemma new_events_append: "trace (snd s') = trace (snd s) @ evs \<Longrightarrow> new_events s s' = evs"
  by (simp add: new_events_def)

lemma attempts_made_append: "attempts_made (xs @ ys) = attempts_made xs @ attempts_made ys"
  by (simp add: attempts_made_def List.map_filter_def)

lemma connect_calls_append: "connect_calls (xs @ ys) = connect_calls xs + connect_calls ys"
  by (simp add: connect_calls_def)

lemma failed_sends_append: "failed_sends (xs @ ys) = failed_sends xs + failed_sends ys"
  by (simp add: failed_sends_def)

lemma quiet_attempt_outcome: "quiet ev \<or> ev = SSHClient_new \<Longrightarrow> attempt_outcome ev = None"
  by (cases ev) (auto simp: quiet_def)

lemma quiet_not_command_failed: "quiet ev \<or> ev = SSHClient_new \<Longrightarrow> \<not> is_command_failed ev"
  by (cases ev) (auto simp: quiet_def)

lemma attempts_made_quiet:
  "list_all (\<lambda>ev. quiet ev \<or> ev = SSHClient_new) evs \<Longrightarrow> attempts_made evs = []"
  by (induction evs) (simp_all add: attempts_made_def List.map_filter_def quiet_attempt_outcome)

lemma connect_calls_quiet: "list_all quiet evs \<Longrightarrow> connect_calls evs = 0"
  by (induction evs) (auto simp: connect_calls_def quiet_def)

lemma failed_sends_quiet:
  "list_all (\<lambda>ev. quiet ev \<or> ev = SSHClient_new) evs \<Longrightarrow> failed_sends evs = 0"
  by (induction evs) (simp_all add: failed_sends_def quiet_not_command_failed)

lemma retry_sleeps_skip: "quiet ev \<or> ev = SSHClient_new \<Longrightarrow> retry_sleeps (ev # evs) = retry_sleeps evs"
  by (cases ev) (auto simp: quiet_def)

lemma retry_sleeps_quiet:
  "list_all (\<lambda>ev. quiet ev \<or> ev = SSHClient_new) xs \<Longrightarrow> retry_sleeps (xs @ ys) = retry_sleeps ys"
  by (induction xs) (simp_all add: retry_sleeps_skip)


lemma attempt_body:
  assumes "and_then disconnect (\<lambda>_. and_then (connect False) (\<lambda>_. py_print (Reconnected a))) s = (r, s1)"
  shows "\<exists>evs. list_all (\<lambda>ev. quiet ev \<or> ev = SSHClient_new) evs \<and> connect_calls evs \<le> 1 \<and>
          (case r of
             Inr u \<Rightarrow> trace (snd s1) = trace (snd s) @ evs @ [Print (Reconnected a)] \<and>
                      is_connected (fst s1)
           | Inl e \<Rightarrow> trace (snd s1) = trace (snd s) @ evs)"
proof -
  obtain rd sd where d: "disconnect s = (rd, sd)" by (cases "disconnect s")
  from emitsD [OF emits_disconnect, of s] d obtain ed where
    td: "trace (snd sd) = trace (snd s) @ ed" and qd: "list_all quiet ed" by auto
  show ?thesis
  proof (cases rd)
    case (Inl e)
    then have "r = Inl e \<and> s1 = sd" using assms d by (simp add: and_then_def)
    moreover have "list_all (\<lambda>ev. quiet ev \<or> ev = SSHClient_new) ed"
      using qd by (auto simp: list_all_iff)
    moreover have "connect_calls ed \<le> 1" using connect_calls_quiet [OF qd] by simp
    ultimately show ?thesis using td by auto
  next
    case ok: (Inr v)
    obtain rc sc where c: "connect False sd = (rc, sc)" by (cases "connect False sd")
    from connect_trace [of False sd] c obtain ec where
      tc: "trace (snd sc) = trace (snd sd) @ SSHClient_new # ec" and qc: "list_all quiet ec"
      by auto
    let ?evs = "ed @ SSHClient_new # ec"
    have q: "list_all (\<lambda>ev. quiet ev \<or> ev = SSHClient_new) ?evs"
      using qd qc by (auto simp: list_all_iff)
    have n: "connect_calls ?evs \<le> 1"
      using connect_calls_quiet [OF qd] connect_calls_quiet [OF qc]
      by (simp add: connect_calls_def)
    have t: "trace (snd sc) = trace (snd s) @ ?evs" using td tc by simp
    show ?thesis
    proof (cases rc)
      case (Inl e)
      then have "r = Inl e \<and> s1 = sc" using assms d ok c by (simp add: and_then_def)
      then show ?thesis using q n t by auto
    next
      case (Inr u)
      then have "connect False sd = (Inr (), sc)" using c by simp
      then have conn: "is_connected (fst sc)"
        using connect_success [of False sd "()" sc] by (simp add: is_connected_def)
      have "r = Inr () \<and> s1 = snd (log (Print (Reconnected a)) sc)"
        using assms d ok c Inr by (simp add: and_then_def py_print_def log_def)
      then have "r = Inr () \<and> trace (snd s1) = trace (snd s) @ ?evs @ [Print (Reconnected a)] \<and>
          is_connected (fst s1)"
        using t conn by (simp add: log_def)
      then show ?thesis using q n by auto
    qed
  qed
qed

lemma time_sleep_refused: "sleep_error d = Some x \<Longrightarrow> time_sleep d s = (Inl x, s)"
  by (simp add: time_sleep_def raise_exn_def)

lemma time_sleep_started:
  assumes "sleep_error d = None" and "time_sleep d s = (r, s1)"
  shows "trace (snd s1) = trace (snd s) @ [Sleep d] \<and> fst s1 = fst s \<and>
    (r = Inr () \<or> r = Inl (Exn KeyboardInterrupt []))"
  using assms by (auto simp: time_sleep_def log_def split: list.splits if_splits)

lemma attempts_made_simps:
  "attempts_made [] = []"
  "attempts_made (ev # evs) =
     (case attempt_outcome ev of None \<Rightarrow> attempts_made evs | Some a \<Rightarrow> a # attempts_made evs)"
  by (simp_all add: attempts_made_def map_filter_simps split: option.split)

lemma connect_calls_simps:
  "connect_calls [] = 0"
  "connect_calls (Print m # evs) = connect_calls evs"
  "connect_calls (Sleep d # evs) = connect_calls evs"
  by (simp_all add: connect_calls_def)

lemma failed_sends_simps:
  "failed_sends [] = 0"
  "failed_sends (Print (Command_failed e) # evs) = Suc (failed_sends evs)"
  "failed_sends (Print (Attempting h) # evs) = failed_sends evs"
  "failed_sends (Print (Reconnected k) # evs) = failed_sends evs"
  "failed_sends (Print (Attempt_failed k e) # evs) = failed_sends evs"
  "failed_sends (Sleep d # evs) = failed_sends evs"
  by (simp_all add: failed_sends_def)

lemma retry_sleeps_simps:
  "retry_sleeps [Print (Reconnected k)] = []"
  "retry_sleeps [Print (Attempt_failed k e)] = []"
  by simp_all

lemma reconnect_loop_summary:
  assumes "reconnect_loop as ri s = (r, s')"
  shows "\<exists>evs. trace (snd s') = trace (snd s) @ evs \<and>
    map fst (attempts_made evs) = take (length (attempts_made evs)) as \<and>
    list_all (\<lambda>a. \<not> snd a) (butlast (attempts_made evs)) \<and>
    ((r = Inr ()) = (attempts_made evs \<noteq> [] \<and> snd (last (attempts_made evs)))) \<and>
    connect_calls evs \<le> length as \<and>
    connect_calls evs \<le> length (attempts_made evs) + (case r of Inl e \<Rightarrow> if is_Exception e then 0 else 1 | Inr u \<Rightarrow> 0) \<and>
    (r = Inr () \<longrightarrow> is_connected (fst s') \<and> evs \<noteq> [] \<and> (\<exists>k. last evs = Print (Reconnected k))) \<and>
    (sleep_error ri = None \<longrightarrow>
       retry_sleeps evs = replicate (length (filter (\<lambda>a. \<not> snd a) (attempts_made evs))) ri) \<and>
    (sleep_error ri = None \<longrightarrow> (\<forall>e. r = Inl e \<longrightarrow> is_Exception e \<longrightarrow>
       e = Exn ConnectionError (ascii ''[!] Reconnection attempts exhausted.'') \<and>
       length (attempts_made evs) = length as)) \<and>
    (\<forall>x. sleep_error ri = Some x \<longrightarrow>
       retry_sleeps evs = [] \<and> length (attempts_made evs) \<le> 1 \<and>
       (attempts_made evs \<noteq> [] \<longrightarrow> \<not> snd (hd (attempts_made evs)) \<longrightarrow> r = Inl x)) \<and>
    failed_sends evs = 0"
  using assms
proof (induction as arbitrary: s)
  case Nil
  then have "r = Inl (Exn ConnectionError (ascii ''[!] Reconnection attempts exhausted.'')) \<and> s' = s"
    by (simp add: raise_exn_def)
  then show ?case
    by (intro exI [of _ "[]"]) (simp add: attempts_made_simps connect_calls_simps failed_sends_simps)
next
  case (Cons a rest)
  let ?B = "and_then disconnect (\<lambda>_. and_then (connect False) (\<lambda>_. py_print (Reconnected a)))"
  obtain rb sb where b: "?B s = (rb, sb)" by (cases "?B s")
  from attempt_body [OF b] obtain eb where
    qb: "list_all (\<lambda>ev. quiet ev \<or> ev = SSHClient_new) eb" and nb: "connect_calls eb \<le> 1" and
    cb: "case rb of
           Inr u \<Rightarrow> trace (snd sb) = trace (snd s) @ eb @ [Print (Reconnected a)] \<and>
                    is_connected (fst sb)
         | Inl e \<Rightarrow> trace (snd sb) = trace (snd s) @ eb" by blast
  note ab = attempts_made_quiet [OF qb]
  note fb = failed_sends_quiet [OF qb]
  note sb = retry_sleeps_quiet [OF qb]
  show ?case
  proof (cases rb)
    case (Inr u)
    then have res: "r = Inr ()" "s' = sb" using Cons.prems b by simp_all
    let ?evs = "eb @ [Print (Reconnected a)]"
    have t: "trace (snd s') = trace (snd s) @ ?evs" and conn: "is_connected (fst s')"
      using cb Inr res by simp_all
    have A: "attempts_made ?evs = [(a, True)]"
      by (simp add: attempts_made_append ab attempts_made_simps)
    have "map fst (attempts_made ?evs) = take (length (attempts_made ?evs)) (a # rest)"
      unfolding A by simp
    moreover have "list_all (\<lambda>a. \<not> snd a) (butlast (attempts_made ?evs))"
      unfolding A by simp
    moreover have "(r = Inr ()) = (attempts_made ?evs \<noteq> [] \<and> snd (last (attempts_made ?evs)))"
      unfolding A using res by simp
    moreover have "connect_calls ?evs \<le> length (a # rest)"
      using nb by (simp add: connect_calls_append connect_calls_simps)
    moreover have "connect_calls ?evs \<le> length (attempts_made ?evs) + (case r of Inl e \<Rightarrow> if is_Exception e then 0 else 1 | Inr u \<Rightarrow> 0)"
      unfolding A using nb res by (simp add: connect_calls_append connect_calls_simps)
    moreover have "retry_sleeps ?evs = []"
      by (simp add: sb)
    moreover have "length (filter (\<lambda>a. \<not> snd a) (attempts_made ?evs)) = 0"
      unfolding A by simp
    moreover have "length (attempts_made ?evs) \<le> 1 \<and> snd (hd (attempts_made ?evs))"
      unfolding A by simp
    moreover have "failed_sends ?evs = 0"
      by (simp add: failed_sends_append fb failed_sends_simps)
    ultimately show ?thesis using t conn res(1) by (intro exI [of _ ?evs]) simp
  next
    case (Inl e)
    have tb: "trace (snd sb) = trace (snd s) @ eb" using cb Inl by simp
    show ?thesis
    proof (cases "is_Exception e")
      case False
      then have res: "r = Inl e" "s' = sb" using Cons.prems b Inl by simp_all
      have "map fst (attempts_made eb) = take (length (attempts_made eb)) (a # rest)"
        unfolding ab by simp
      moreover have "list_all (\<lambda>a. \<not> snd a) (butlast (attempts_made eb))"
        unfolding ab by simp
      moreover have "connect_calls eb \<le> length (a # rest)" using nb by simp
      moreover have "connect_calls eb \<le> length (attempts_made eb) + (case r of Inl e \<Rightarrow> if is_Exception e then 0 else 1 | Inr u \<Rightarrow> 0)"
        unfolding ab using nb res False by simp
      moreover have "retry_sleeps eb = []" using sb [of "[]"] by simp
      moreover have "failed_sends eb = 0" by (rule fb)
      ultimately show ?thesis
        using tb res False by (intro exI [of _ eb]) (simp add: ab)
    next
      case True
      let ?sp = "snd (log (Print (Attempt_failed a e)) sb)"
      have tp: "trace (snd ?sp) = trace (snd s) @ eb @ [Print (Attempt_failed a e)]"
        using tb by (simp add: log_def)
      obtain rs ss where sl: "time_sleep ri ?sp = (rs, ss)" by (cases "time_sleep ri ?sp")
      have step: "reconnect_loop (a # rest) ri s =
          (case rs of Inl e' \<Rightarrow> (Inl e', ss) | Inr u \<Rightarrow> reconnect_loop rest ri ss)"
        using b Inl True sl by (simp add: and_then_def py_print_def log_def split: sum.splits)
      let ?e1 = "eb @ [Print (Attempt_failed a e)]"
      have A1: "attempts_made ?e1 = [(a, False)]"
        by (simp add: attempts_made_append ab attempts_made_simps)
      have c1: "connect_calls ?e1 \<le> 1"
        using nb by (simp add: connect_calls_append connect_calls_simps)
      have f1: "failed_sends ?e1 = 0"
        by (simp add: failed_sends_append fb failed_sends_simps)
      show ?thesis
      proof (cases "sleep_error ri")
        case (Some x)
        from time_sleep_refused [OF this, of ?sp] sl have "rs = Inl x" "ss = ?sp" by simp_all
        then have res: "r = Inl x" "s' = ?sp" using Cons.prems step by simp_all
        have "map fst (attempts_made ?e1) = take (length (attempts_made ?e1)) (a # rest)"
          unfolding A1 by simp
        moreover have "list_all (\<lambda>a. \<not> snd a) (butlast (attempts_made ?e1))"
          unfolding A1 by simp
        moreover have "(r = Inr ()) = (attempts_made ?e1 \<noteq> [] \<and> snd (last (attempts_made ?e1)))"
          unfolding A1 using res by simp
        moreover have "connect_calls ?e1 \<le> length (a # rest)" using c1 by simp
        moreover have "connect_calls ?e1 \<le> length (attempts_made ?e1) + (case r of Inl e \<Rightarrow> if is_Exception e then 0 else 1 | Inr u \<Rightarrow> 0)"
          unfolding A1 using c1 by simp
        moreover have "retry_sleeps ?e1 = []" by (simp add: sb)
        moreover have "length (attempts_made ?e1) \<le> 1" unfolding A1 by simp
        ultimately show ?thesis
          using tp res Some f1 by (intro exI [of _ ?e1]) simp
      next
        case None
        from time_sleep_started [OF None sl] have
          ts: "trace (snd ss) = trace (snd ?sp) @ [Sleep ri]" and
          rs: "rs = Inr () \<or> rs = Inl (Exn KeyboardInterrupt [])" by simp_all
        let ?e2 = "eb @ [Print (Attempt_failed a e), Sleep ri]"
        have t2: "trace (snd ss) = trace (snd s) @ ?e2" using ts tp by simp
        have A2: "attempts_made ?e2 = [(a, False)]"
          by (simp add: attempts_made_append ab attempts_made_simps)
        have c2: "connect_calls ?e2 \<le> 1"
          using nb by (simp add: connect_calls_append connect_calls_simps)
        have f2: "failed_sends ?e2 = 0"
          by (simp add: failed_sends_append fb failed_sends_simps)
        have s2: "retry_sleeps (?e2 @ ys) = ri # retry_sleeps ys" for ys
          by (simp add: sb)
        show ?thesis
        proof (cases rs)
          case k: (Inl k)
          then have kk: "k = Exn KeyboardInterrupt []" using rs by simp
          have res: "r = Inl k" "s' = ss" using Cons.prems step k by simp_all
          have "map fst (attempts_made ?e2) = take (length (attempts_made ?e2)) (a # rest)"
            unfolding A2 by simp
          moreover have "list_all (\<lambda>a. \<not> snd a) (butlast (attempts_made ?e2))"
            unfolding A2 by simp
          moreover have "(r = Inr ()) = (attempts_made ?e2 \<noteq> [] \<and> snd (last (attempts_made ?e2)))"
            unfolding A2 using res by simp
          moreover have "connect_calls ?e2 \<le> length (a # rest)" using c2 by simp
          moreover have "connect_calls ?e2 \<le> length (attempts_made ?e2) + (case r of Inl e \<Rightarrow> if is_Exception e then 0 else 1 | Inr u \<Rightarrow> 0)"
            unfolding A2 using c2 by simp
          moreover have "retry_sleeps ?e2 =
              replicate (length (filter (\<lambda>a. \<not> snd a) (attempts_made ?e2))) ri"
            unfolding A2 using s2 [of "[]"] by simp
          moreover have "\<not> is_Exception k" using kk by simp
          ultimately show ?thesis
            using t2 res None f2 by (intro exI [of _ ?e2]) simp
        next
          case (Inr u)
          then have rec: "reconnect_loop rest ri ss = (r, s')" using Cons.prems step by simp
          from Cons.IH [OF rec] None obtain evs' where
            t': "trace (snd s') = trace (snd ss) @ evs'" and
            i1: "map fst (attempts_made evs') = take (length (attempts_made evs')) rest" and
            i2: "list_all (\<lambda>a. \<not> snd a) (butlast (attempts_made evs'))" and
            i3: "(r = Inr ()) = (attempts_made evs' \<noteq> [] \<and> snd (last (attempts_made evs')))" and
            i4: "connect_calls evs' \<le> length rest" and
            i9: "connect_calls evs' \<le> length (attempts_made evs') + (case r of Inl e \<Rightarrow> if is_Exception e then 0 else 1 | Inr u \<Rightarrow> 0)" and
            i5: "r = Inr () \<longrightarrow>
               is_connected (fst s') \<and> evs' \<noteq> [] \<and> (\<exists>k. last evs' = Print (Reconnected k))" and
            i6: "retry_sleeps evs' =
               replicate (length (filter (\<lambda>a. \<not> snd a) (attempts_made evs'))) ri" and
            i7: "\<forall>e. r = Inl e \<longrightarrow> is_Exception e \<longrightarrow>
               e = Exn ConnectionError (ascii ''[!] Reconnection attempts exhausted.'') \<and>
               length (attempts_made evs') = length rest" and
            i8: "failed_sends evs' = 0" by auto
          let ?evs = "?e2 @ evs'"
          have t: "trace (snd s') = trace (snd s) @ ?evs" using t' t2 by simp
          have A: "attempts_made ?evs = (a, False) # attempts_made evs'"
            using A2 by (simp only: attempts_made_append [of ?e2 evs']) simp
          have "map fst (attempts_made ?evs) = take (length (attempts_made ?evs)) (a # rest)"
            unfolding A using i1 by simp
          moreover have "list_all (\<lambda>a. \<not> snd a) (butlast (attempts_made ?evs))"
            unfolding A using i2 by simp
          moreover have "(r = Inr ()) = (attempts_made ?evs \<noteq> [] \<and> snd (last (attempts_made ?evs)))"
            unfolding A using i3 by simp
          moreover have "connect_calls ?evs \<le> length (a # rest)"
            using c2 i4 by (simp only: connect_calls_append [of ?e2 evs']) simp
          moreover have "connect_calls ?evs \<le> length (attempts_made ?evs) + (case r of Inl e \<Rightarrow> if is_Exception e then 0 else 1 | Inr u \<Rightarrow> 0)"
            unfolding A using c2 i9 by (simp only: connect_calls_append [of ?e2 evs']) simp
          moreover have "retry_sleeps ?evs =
              replicate (length (filter (\<lambda>a. \<not> snd a) (attempts_made ?evs))) ri"
            unfolding A using i6 s2 [of evs'] by simp
          moreover have "\<forall>e. r = Inl e \<longrightarrow> is_Exception e \<longrightarrow>
               e = Exn ConnectionError (ascii ''[!] Reconnection attempts exhausted.'') \<and>
               length (attempts_made ?evs) = length (a # rest)"
            unfolding A using i7 by simp
          moreover have "failed_sends ?evs = 0"
            using f2 i8 by (simp only: failed_sends_append [of ?e2 evs'])
          moreover have "r = Inr () \<longrightarrow> ?evs \<noteq> [] \<and> (\<exists>k. last ?evs = Print (Reconnected k))"
            using i5 by simp
          ultimately show ?thesis using t i5 None by (intro exI [of _ ?evs]) simp
        qed
      qed
    qed
  qed
qed

lemma reconnect_unfold:
  "reconnect rc ri s = reconnect_loop [1..rc] ri (snd (log (Print (Attempting (host (fst s)))) s))"
  by (simp add: reconnect_def and_then_def self_def py_print_def log_def)

lemma take_upto: "n \<le> nat m \<Longrightarrow> take n [1..m] = [1..int n]"
  by (rule nth_equalityI) auto

lemma reconnect_summary:
  assumes "reconnect rc ri s = (r, s')"
  shows "\<exists>evs h. trace (snd s') = trace (snd s) @ Print (Attempting h) # evs \<and>
    new_events s s' = Print (Attempting h) # evs \<and>
    length (attempts_made evs) \<le> nat rc \<and>
    map fst (attempts_made evs) = [1..int (length (attempts_made evs))] \<and>
    list_all (\<lambda>a. \<not> snd a) (butlast (attempts_made evs)) \<and>
    ((r = Inr ()) = (attempts_made evs \<noteq> [] \<and> snd (last (attempts_made evs)))) \<and>
    connect_calls evs \<le> nat rc \<and>
    connect_calls evs \<le> length (attempts_made evs) + (case r of Inl e \<Rightarrow> if is_Exception e then 0 else 1 | Inr u \<Rightarrow> 0) \<and>
    (r = Inr () \<longrightarrow> is_connected (fst s') \<and> evs \<noteq> [] \<and> (\<exists>k. last evs = Print (Reconnected k))) \<and>
    (sleep_error ri = None \<longrightarrow>
       retry_sleeps evs = replicate (length (filter (\<lambda>a. \<not> snd a) (attempts_made evs))) ri) \<and>
    (sleep_error ri = None \<longrightarrow> (\<forall>e. r = Inl e \<longrightarrow> is_Exception e \<longrightarrow>
       e = Exn ConnectionError (ascii ''[!] Reconnection attempts exhausted.'') \<and>
       length (attempts_made evs) = nat rc)) \<and>
    (\<forall>x. sleep_error ri = Some x \<longrightarrow>
       retry_sleeps evs = [] \<and> length (attempts_made evs) \<le> 1 \<and>
       (attempts_made evs \<noteq> [] \<longrightarrow> \<not> snd (hd (attempts_made evs)) \<longrightarrow> r = Inl x)) \<and>
    failed_sends evs = 0"
proof -
  let ?s0 = "snd (log (Print (Attempting (host (fst s)))) s)"
  have "reconnect_loop [1..rc] ri ?s0 = (r, s')" using assms by (simp add: reconnect_unfold)
  from reconnect_loop_summary [OF this] obtain evs where
    t: "trace (snd s') = trace (snd ?s0) @ evs" and
    i1: "map fst (attempts_made evs) = take (length (attempts_made evs)) [1..rc]" and
    c: "connect_calls evs \<le> length [1..rc]" and
    cc: "connect_calls evs \<le> length (attempts_made evs) + (case r of Inl e \<Rightarrow> if is_Exception e then 0 else 1 | Inr u \<Rightarrow> 0)" and
    x: "sleep_error ri = None \<longrightarrow> (\<forall>e. r = Inl e \<longrightarrow> is_Exception e \<longrightarrow>
       e = Exn ConnectionError (ascii ''[!] Reconnection attempts exhausted.'') \<and>
       length (attempts_made evs) = length [1..rc])" and
    rest: "list_all (\<lambda>a. \<not> snd a) (butlast (attempts_made evs))"
      "(r = Inr ()) = (attempts_made evs \<noteq> [] \<and> snd (last (attempts_made evs)))"
      "r = Inr () \<longrightarrow> is_connected (fst s') \<and> evs \<noteq> [] \<and> (\<exists>k. last evs = Print (Reconnected k))"
      "sleep_error ri = None \<longrightarrow>
         retry_sleeps evs = replicate (length (filter (\<lambda>a. \<not> snd a) (attempts_made evs))) ri"
      "\<forall>x. sleep_error ri = Some x \<longrightarrow>
         retry_sleeps evs = [] \<and> length (attempts_made evs) \<le> 1 \<and>
         (attempts_made evs \<noteq> [] \<longrightarrow> \<not> snd (hd (attempts_made evs)) \<longrightarrow> r = Inl x)"
      "failed_sends evs = 0"
    apply (elim exE conjE)
    apply (rule that)
             apply assumption+
    done
  have "length (map fst (attempts_made evs)) \<le> length [1..rc]"
    unfolding i1 by simp
  then have len: "length (attempts_made evs) \<le> nat rc" by simp
  have num: "map fst (attempts_made evs) = [1..int (length (attempts_made evs))]"
    using i1 take_upto [OF len] by simp
  have c': "connect_calls evs \<le> nat rc" using c by simp
  have x': "sleep_error ri = None \<longrightarrow> (\<forall>e. r = Inl e \<longrightarrow> is_Exception e \<longrightarrow>
       e = Exn ConnectionError (ascii ''[!] Reconnection attempts exhausted.'') \<and>
       length (attempts_made evs) = nat rc)" using x by simp
  have tr: "trace (snd s') = trace (snd s) @ Print (Attempting (host (fst s))) # evs"
    using t by (simp add: log_def)
  then have ne: "new_events s s' = Print (Attempting (host (fst s))) # evs"
    by (rule new_events_append)
  show ?thesis
    by (intro exI [of _ evs] exI [of _ "host (fst s)"] conjI) fact+
qed

lemmas demo_defs = demo_conn_def demo_world_def refused_def closed_def demo_connected_def









lemma demo_connect:
  "connect False (demo_conn, demo_world []) =
     (Inr (),
      demo_conn\<lparr>ssh_client := Some 0, shell := Some 1\<rparr>,
      \<lparr>failures = [], interrupts = [], ready = [], chunks = [], next_handle = 2,
       trace =
         [SSHClient_new, Set_policy 0, Client_connect 0 [104] 22 [117] [112], Invoke_shell 0,
          Sleep (Finite 1), Recv_ready 1]\<rparr>)"
  by (simp add: demo_defs prim_defs method_defs)

lemma demo_reconnect_first:
  "fst (reconnect 1 (Finite 2) (demo_conn, demo_world [])) = Inr ()"
  by (simp add: demo_defs prim_defs method_defs upto.simps)

subsection \<open>The invariant that every operation keeps\<close>

lemma keeps_clientD: "keeps_client m \<Longrightarrow> ssh_client (fst (snd (m s))) = ssh_client (fst s)"
  unfolding keeps_client_def by (erule allE)

lemma keeps_client_of_keeps: "keeps_conn m \<Longrightarrow> keeps_client m"
  by (simp add: keeps_client_def keeps_conn_def)

lemma keeps_client_set_shell: "keeps_client (set_shell v)"
  by (simp add: keeps_client_def set_shell_def)

lemma keeps_client_and_then:
  assumes "keeps_client m" and "\<And>a. keeps_client (f a)"
  shows "keeps_client (and_then m f)"
  unfolding keeps_client_def
proof
  fix s
  obtain r s1 where m: "m s = (r, s1)" by (cases "m s")
  have a: "ssh_client (fst s1) = ssh_client (fst s)"
    using keeps_clientD [OF assms(1), of s] m by simp
  show "ssh_client (fst (snd (and_then m f s))) = ssh_client (fst s)"
  proof (cases r)
    case (Inl e)
    then show ?thesis using m a by (simp add: and_then_def)
  next
    case (Inr v)
    then show ?thesis using m a keeps_clientD [OF assms(2), of v s1] by (simp add: and_then_def)
  qed
qed

lemma keeps_client_if: "keeps_client a \<Longrightarrow> keeps_client b \<Longrightarrow> keeps_client (if c then a else b)"
  by simp

lemmas keeps_client_prims =
  keeps_client_of_keeps [OF keeps_the_client] keeps_client_of_keeps [OF keeps_the_shell]
  keeps_client_of_keeps [OF keeps_self] keeps_client_of_keeps [OF keeps_set_policy]
  keeps_client_of_keeps [OF keeps_client_connect] keeps_client_of_keeps [OF keeps_invoke_shell]
  keeps_client_of_keeps [OF keeps_time_sleep] keeps_client_of_keeps [OF keeps_flush_buffer]
  keeps_client_of_keeps [OF keeps_channel_send] keeps_client_of_keeps [OF keeps_ret]
  keeps_client_set_shell

lemma connect_body_client:
  "fst (snd (connect_body dp s)) = fst s \<or> ssh_client (fst (snd (connect_body dp s))) \<noteq> None"
proof -
  let ?rest = "\<lambda>u::unit.
     and_then the_client (\<lambda>h.
     and_then (set_missing_host_key_policy h) (\<lambda>_.
     and_then the_client (\<lambda>h.
     and_then self (\<lambda>c.
     and_then (client_connect h (host c) (port c) (username c) (password c)) (\<lambda>_.
     and_then the_client (\<lambda>h.
     and_then (invoke_shell h) (\<lambda>chan.
     and_then (set_shell (Some chan)) (\<lambda>_.
     and_then (time_sleep (Finite 1)) (\<lambda>_.
     and_then flush_buffer (\<lambda>_.
     if dp
     then and_then the_shell (\<lambda>h.
          and_then (channel_send h (ascii ''terminal length 0'' @ [10])) (\<lambda>_.
          time_sleep (Finite 1)))
     else ret ()))))))))))"
  have k: "keeps_client (?rest u)" for u
    by (intro keeps_client_and_then keeps_client_if keeps_client_prims)
  have body: "connect_body dp =
      and_then paramiko_SSHClient (\<lambda>client. and_then (set_ssh_client (Some client)) ?rest)"
    by (simp add: connect_body_def)
  obtain r1 s1 where p: "paramiko_SSHClient s = (r1, s1)" by (cases "paramiko_SSHClient s")
  have u: "fst s1 = fst s" using keeps_eq [OF p keeps_paramiko_SSHClient] .
  show ?thesis
  proof (cases r1)
    case (Inl e)
    then have "connect_body dp s = (Inl e, s1)" unfolding body using p by (simp add: and_then_def)
    then show ?thesis using u by simp
  next
    case (Inr client)
    let ?s2 = "((fst s1)\<lparr>ssh_client := Some client\<rparr>, snd s1)"
    have "connect_body dp s = ?rest () ?s2"
      unfolding body using p Inr by (simp add: and_then_def set_ssh_client_def)
    then have "ssh_client (fst (snd (connect_body dp s))) = Some client"
      using keeps_clientD [OF k, of ?s2] by simp
    then show ?thesis by simp
  qed
qed

lemma connect_conn: "fst (snd (connect dp s)) = fst (snd (connect_body dp s))"
proof -
  obtain r s1 where "connect_body dp s = (r, s1)" by (cases "connect_body dp s")
  then show ?thesis by (cases r) (simp_all add: connect_def try_except_def raise_exn_def)
qed

lemma connect_shell_needs_client:
  assumes "shell_needs_client (fst s)"
  shows "shell_needs_client (fst (snd (connect dp s)))"
  using connect_body_client [of dp s] assms unfolding connect_conn
  by (auto simp: shell_needs_client_def)

lemma disconnect_shell_needs_client:
  assumes "shell_needs_client (fst s)"
  shows "shell_needs_client (fst (snd (disconnect s)))"
proof (cases "fst (disconnect s)")
  case (Inl e)
  from disconnect_raises [OF this] show ?thesis
    using assms by (auto simp: shell_needs_client_def)
next
  case (Inr u)
  then have "fst (disconnect s) = Inr ()" by simp
  from disconnect_returns [OF this] show ?thesis
    by (simp add: shell_needs_client_def)
qed

lemma attempt_shell_needs_client:
  assumes "shell_needs_client (fst s)"
  shows "shell_needs_client
    (fst (snd (and_then disconnect (\<lambda>_. and_then (connect False) (\<lambda>_. py_print m)) s)))"
proof -
  obtain rd sd where d: "disconnect s = (rd, sd)" by (cases "disconnect s")
  have a: "shell_needs_client (fst sd)"
    using disconnect_shell_needs_client [OF assms] d by simp
  show ?thesis
  proof (cases rd)
    case (Inl e)
    then show ?thesis using d a by (simp add: and_then_def)
  next
    case (Inr u)
    obtain rc sc where c: "connect False sd = (rc, sc)" by (cases "connect False sd")
    have b: "shell_needs_client (fst sc)"
      using connect_shell_needs_client [OF a, of False] c by simp
    show ?thesis using d Inr c b
      by (cases rc) (simp_all add: and_then_def py_print_def log_def)
  qed
qed

lemma reconnect_loop_shell_needs_client:
  "shell_needs_client (fst s) \<Longrightarrow> shell_needs_client (fst (snd (reconnect_loop as ri s)))"
proof (induction as arbitrary: s)
  case Nil
  then show ?case by (simp add: raise_exn_def)
next
  case (Cons a rest)
  let ?B = "and_then disconnect (\<lambda>_. and_then (connect False) (\<lambda>_. py_print (Reconnected a)))"
  obtain rb sb where b: "?B s = (rb, sb)" by (cases "?B s")
  have i: "shell_needs_client (fst sb)"
    using attempt_shell_needs_client [OF Cons.prems, of "Reconnected a"] b by simp
  show ?case
  proof (cases rb)
    case (Inr u)
    then show ?thesis using b i by simp
  next
    case (Inl e)
    show ?thesis
    proof (cases "is_Exception e")
      case False
      then show ?thesis using b Inl i by simp
    next
      case True
      let ?H = "and_then (py_print (Attempt_failed a e)) (\<lambda>_. time_sleep ri)"
      obtain rh sh where h: "?H sb = (rh, sh)" by (cases "?H sb")
      have "keeps_conn ?H" by (intro keeps_and_then keeps_py_print keeps_time_sleep)
      from keeps_eq [OF h this] have j: "shell_needs_client (fst sh)" using i by simp
      show ?thesis
      proof (cases rh)
        case l: (Inl e')
        then show ?thesis using b Inl True h j by simp
      next
        case r: (Inr u)
        then show ?thesis using b Inl True h Cons.IH [OF j] by simp
      qed
    qed
  qed
qed

lemma reconnect_shell_needs_client:
  "shell_needs_client (fst s) \<Longrightarrow> shell_needs_client (fst (snd (reconnect rc ri s)))"
  unfolding reconnect_unfold
  by (rule reconnect_loop_shell_needs_client) (simp add: log_def)

text \<open>
  Claim C2, as the code has it. \<open>send_command\<close> leaves the connection as it found it,
  whether it returns or raises, so it keeps the invariant. \<open>disconnect\<close> leaves both handles
  null, and \<open>connect\<close> and \<open>reconnect\<close> leave both handles non-null, whenever they return
  normally. When \<open>disconnect\<close> raises, either the connection is as it was (the channel's
  \<^verbatim>\<open>close()\<close> raised) or only the shell handle has been set to null, with the client handle
  still set (the client's \<^verbatim>\<open>close()\<close> raised). What all four operations keep,
  whether they return or raise, is the weaker invariant: the shell handle is non-null only
  when the client handle is.
\<close>

theorem handles_after_operations:
  "fst (snd (send_command command wait_time s)) = fst s \<and>
   (fst (disconnect s) = Inr () \<longrightarrow>
      ssh_client (fst (snd (disconnect s))) = None \<and>
      shell (fst (snd (disconnect s))) = None \<and>
      handles_agree (fst (snd (disconnect s)))) \<and>
   (fst (connect disable_pagination s) = Inr () \<longrightarrow>
      is_connected (fst (snd (connect disable_pagination s))) \<and>
      handles_agree (fst (snd (connect disable_pagination s)))) \<and>
   (fst (reconnect retry_count retry_interval s) = Inr () \<longrightarrow>
      is_connected (fst (snd (reconnect retry_count retry_interval s))) \<and>
      handles_agree (fst (snd (reconnect retry_count retry_interval s)))) \<and>
   (\<forall>e. fst (disconnect s) = Inl e \<longrightarrow>
      (shell (fst s) \<noteq> None \<and> fst (snd (disconnect s)) = fst s) \<or>
      (ssh_client (fst s) \<noteq> None \<and> fst (snd (disconnect s)) = (fst s)\<lparr>shell := None\<rparr>)) \<and>
   (shell_needs_client (fst s) \<longrightarrow>
      shell_needs_client (fst (snd (connect disable_pagination s))) \<and>
      shell_needs_client (fst (snd (reconnect retry_count retry_interval s))) \<and>
      shell_needs_client (fst (snd (disconnect s))) \<and>
      shell_needs_client (fst (snd (send_command command wait_time s))))"
proof (intro conjI impI allI)
  show "fst (snd (send_command command wait_time s)) = fst s"
    by (rule keepsD [OF keeps_send_command])
next
  assume i: "shell_needs_client (fst s)"
  show "shell_needs_client (fst (snd (connect disable_pagination s)))"
    using i by (rule connect_shell_needs_client)
  show "shell_needs_client (fst (snd (reconnect retry_count retry_interval s)))"
    using i by (rule reconnect_shell_needs_client)
  show "shell_needs_client (fst (snd (disconnect s)))"
    using i by (rule disconnect_shell_needs_client)
  show "shell_needs_client (fst (snd (send_command command wait_time s)))"
    using i keepsD [OF keeps_send_command, of command wait_time s] by simp
next
  assume ok: "fst (disconnect s) = Inr ()"
  note after = disconnect_returns [OF ok]
  show "ssh_client (fst (snd (disconnect s))) = None" using after by simp
  show "shell (fst (snd (disconnect s))) = None" using after by simp
  show "handles_agree (fst (snd (disconnect s)))" using after by (simp add: handles_agree_def)
next
  assume "fst (connect disable_pagination s) = Inr ()"
  then have "connect disable_pagination s = (Inr (), snd (connect disable_pagination s))"
    by (metis prod.collapse)
  from connect_success [OF this]
  show "is_connected (fst (snd (connect disable_pagination s)))"
    and "handles_agree (fst (snd (connect disable_pagination s)))"
    by (auto simp: is_connected_def handles_agree_def)
next
  assume "fst (reconnect retry_count retry_interval s) = Inr ()"
  then have r: "reconnect retry_count retry_interval s =
      (Inr (), snd (reconnect retry_count retry_interval s))"
    by (metis prod.collapse)
  from reconnect_summary [OF r]
  have c: "is_connected (fst (snd (reconnect retry_count retry_interval s)))"
    by (elim exE conjE) simp
  show "is_connected (fst (snd (reconnect retry_count retry_interval s)))" by (rule c)
  show "handles_agree (fst (snd (reconnect retry_count retry_interval s)))"
    using c by (auto simp: is_connected_def handles_agree_def)
next
  fix e
  assume "fst (disconnect s) = Inl e"
  then show "(shell (fst s) \<noteq> None \<and> fst (snd (disconnect s)) = fst s) \<or>
    (ssh_client (fst s) \<noteq> None \<and> fst (snd (disconnect s)) = (fst s)\<lparr>shell := None\<rparr>)"
    by (rule disconnect_raises)
qed

theorem handles_after_operations_witness:
  "fst (connect False (demo_conn, demo_world [])) = Inr () \<and>
   is_connected (fst (snd (connect False (demo_conn, demo_world [])))) \<and>
   fst (reconnect 1 (Finite 2) (demo_conn, demo_world [])) = Inr () \<and>
   is_connected (fst (snd (reconnect 1 (Finite 2) (demo_conn, demo_world [])))) \<and>
   fst (disconnect (demo_connected, demo_world [])) = Inr () \<and>
   handles_agree (fst (snd (disconnect (demo_connected, demo_world [])))) \<and>
   fst (disconnect (demo_connected, demo_world [None, Some closed])) = Inl closed \<and>
   fst (snd (disconnect (demo_connected, demo_world [None, Some closed]))) =
     demo_connected\<lparr>shell := None\<rparr> \<and>
   shell_needs_client (fst (demo_conn, demo_world [None, None, Some refused])) \<and>
   shell_needs_client
     (fst (snd (connect False (demo_conn, demo_world [None, None, Some refused]))))"
proof -
  have d: "shell_needs_client (fst (demo_conn, demo_world [None, None, Some refused]))"
    by (simp add: shell_needs_client_def demo_conn_def init_def)
  have a: "fst (connect False (demo_conn, demo_world [])) = Inr ()"
    by (simp add: demo_connect)
  have b: "fst (disconnect (demo_connected, demo_world [])) = Inr ()"
    by (simp add: demo_disconnect)
  have c: "fst (disconnect (demo_connected, demo_world [None, Some closed])) = Inl closed"
    by (simp add: demo_disconnect_client_raises)
  show ?thesis
    using handles_after_operations
        [of "[]" "Finite 1" "(demo_conn, demo_world [])" False 1 "Finite 2"]
      handles_after_operations
        [of "[]" "Finite 1" "(demo_connected, demo_world [])" False 1 "Finite 2"]
      handles_after_operations
        [of "[]" "Finite 1" "(demo_connected, demo_world [None, Some closed])" False 1 "Finite 2"]
      handles_after_operations
        [of "[]" "Finite 1" "(demo_conn, demo_world [None, None, Some refused])" False 1 "Finite 2"]
      a b c d demo_reconnect_first
    by (simp add: demo_disconnect_client_raises)
qed

text \<open>
  A \<open>connect\<close> that raises can break the invariant: when the client is built and the
  network connection is refused, the client handle stays set and the shell handle is null.
\<close>

theorem connect_failure_breaks_invariant:
  "handles_agree (fst (demo_conn, demo_world [None, None, Some refused])) \<and>
   fst (connect False (demo_conn, demo_world [None, None, Some refused])) =
     Inl (Exn ConnectionError (ascii ''[!] SSH connection failed: '' @ [110, 111])) \<and>
   ssh_client (fst (snd (connect False (demo_conn, demo_world [None, None, Some refused])))) =
     Some 0 \<and>
   shell (fst (snd (connect False (demo_conn, demo_world [None, None, Some refused])))) = None \<and>
   \<not> handles_agree (fst (snd (connect False (demo_conn, demo_world [None, None, Some refused]))))"
  by (simp add: demo_defs prim_defs method_defs handles_agree_def)








end
